theory Spec2Isabelle
  imports Main "HOL-Library.AList" "HOL-Library.Char_ord" "HOL-Library.List_Lexorder"
    "HOL-Library.Monad_Syntax"
begin

unbundle bit_operations_syntax

section \<open>Python exceptions\<close>

text \<open>
  Every exception the script or the library functions it calls can raise is a value.
  A computation that may raise returns \<open>py_error + 'a\<close>, with \<open>Inl\<close> for the exception.
  \<open>AddressValueError\<close> and \<open>NetmaskValueError\<close> are the two subclasses of \<open>ValueError\<close>
  that \<open>ipaddress.ip_address\<close> and \<open>ipaddress.ip_network\<close> catch; they are kept apart
  from a plain \<open>ValueError\<close> for that reason.
\<close>

datatype py_error =
    AddressValueError
  | NetmaskValueError
  | ValueError
  | TypeError
  | IndexError
  | KeyError string
  | NameError string
  | AttributeError
  | FileNotFoundError string
  | Unmodelled

section \<open>The part of the standard module \<open>ipaddress\<close> that the script calls\<close>

datatype ip_version = IPv4 | IPv6

fun max_prefixlen :: "ip_version \<Rightarrow> nat" where
  "max_prefixlen IPv4 = 32"
| "max_prefixlen IPv6 = 128"

definition ALL_ONES :: "ip_version \<Rightarrow> nat" where
  "ALL_ONES v = 2 ^ max_prefixlen v - 1"

text \<open>
  An address object holds its version and the integer \<open>_ip\<close>; a network object holds its
  version, the integer of its network address and its prefix length (the netmask is computed
  from the prefix length). The constructors only build objects with
  \<open>0 \<le> _ip \<le> _ALL_ONES\<close>, so the integers are naturals.
\<close>

record ip_address =
  addr_version :: ip_version
  addr_ip :: nat

record ip_network =
  net_version :: ip_version
  network_address :: nat
  prefixlen :: nat

text \<open>\<open>IPv4Address(n)\<close> and \<open>IPv6Address(n)\<close> for an integer \<open>n\<close>, with \<open>_check_int_address\<close>.\<close>

definition IPAddress :: "ip_version \<Rightarrow> nat \<Rightarrow> py_error + ip_address" where
  "IPAddress v address =
     (if address > ALL_ONES v then Inl AddressValueError
      else Inr \<lparr>addr_version = v, addr_ip = address\<rparr>)"

text \<open>\<open>_ip_int_from_prefix\<close>: \<open>cls._ALL_ONES ^ (cls._ALL_ONES >> prefixlen)\<close>.\<close>

definition ip_int_from_prefix :: "ip_version \<Rightarrow> nat \<Rightarrow> nat" where
  "ip_int_from_prefix v p = ALL_ONES v XOR drop_bit p (ALL_ONES v)"

definition netmask :: "ip_network \<Rightarrow> nat" where
  "netmask n = ip_int_from_prefix (net_version n) (prefixlen n)"

definition hostmask :: "ip_network \<Rightarrow> nat" where
  "hostmask n = netmask n XOR ALL_ONES (net_version n)"

definition broadcast_address :: "ip_network \<Rightarrow> nat" where
  "broadcast_address n = network_address n OR hostmask n"

definition num_addresses :: "ip_network \<Rightarrow> nat" where
  "num_addresses n = broadcast_address n - network_address n + 1"

text \<open>
  \<open>IPv4Network((addr, prefixlen))\<close> and \<open>IPv6Network((addr, prefixlen))\<close> on a pair of
  integers, with \<open>strict=True\<close>: the address check, the prefix check of \<open>_make_netmask\<close>,
  and the host-bits check.
\<close>

definition IPNetwork :: "ip_version \<Rightarrow> nat \<Rightarrow> nat \<Rightarrow> py_error + ip_network" where
  "IPNetwork v addr p =
     (if addr > ALL_ONES v then Inl AddressValueError
      else if p > max_prefixlen v then Inl NetmaskValueError
      else if addr AND ip_int_from_prefix v p \<noteq> addr then Inl ValueError
      else Inr \<lparr>net_version = v, network_address = addr, prefixlen = p\<rparr>)"

text \<open>The class invariant of a network object: the constructor accepts its fields.\<close>

definition valid_network :: "ip_network \<Rightarrow> bool" where
  "valid_network n = (IPNetwork (net_version n) (network_address n) (prefixlen n) = Inr n)"

definition valid_address :: "ip_address \<Rightarrow> bool" where
  "valid_address a = (IPAddress (addr_version a) (addr_ip a) = Inr a)"

definition network_address_of :: "ip_network \<Rightarrow> ip_address" where
  "network_address_of n = \<lparr>addr_version = net_version n, addr_ip = network_address n\<rparr>"

definition broadcast_address_of :: "ip_network \<Rightarrow> ip_address" where
  "broadcast_address_of n = \<lparr>addr_version = net_version n, addr_ip = broadcast_address n\<rparr>"

text \<open>\<open>_BaseNetwork.__contains__\<close> for an address: \<open>other in self\<close>.\<close>

definition contains :: "ip_network \<Rightarrow> ip_address \<Rightarrow> bool" where
  "contains self other =
     (if net_version self \<noteq> addr_version other then False
      else addr_ip other AND netmask self = network_address self)"

definition overlaps :: "ip_network \<Rightarrow> ip_network \<Rightarrow> bool" where
  "overlaps self other =
     (contains other (network_address_of self) \<or>
      (contains other (broadcast_address_of self) \<or>
       (contains self (network_address_of other) \<or>
        contains self (broadcast_address_of other))))"

text \<open>\<open>_is_subnet_of(a, b)\<close> for two networks of one version (it raises TypeError otherwise).\<close>

definition subnet_of :: "ip_network \<Rightarrow> ip_network \<Rightarrow> py_error + bool" where
  "subnet_of a b =
     (if net_version a \<noteq> net_version b then Inl TypeError
      else Inr (network_address b \<le> network_address a \<and>
                broadcast_address b \<ge> broadcast_address a))"

text \<open>\<open>range(start, stop, step)\<close> on naturals; Python refuses a zero step, which the caller checks.\<close>

function py_range :: "nat \<Rightarrow> nat \<Rightarrow> nat \<Rightarrow> nat list" where
  "py_range start stop step =
     (if step = 0 \<or> stop \<le> start then [] else start # py_range (start + step) stop step)"
  by pat_completeness auto
termination
  by (relation "measure (\<lambda>(start, stop, step). stop - start)") auto

declare py_range.simps [simp del]

text \<open>
  \<open>_BaseNetwork.subnets(new_prefix=...)\<close>. It is a generator: the argument checks raise at
  the first \<open>next\<close>, and each sub-network is built (and may raise) only when the consumer
  asks for it, so the result is a list of outcomes.
\<close>

definition subnets :: "ip_network \<Rightarrow> nat \<Rightarrow> py_error + (py_error + ip_network) list" where
  "subnets self new_prefix =
     (if prefixlen self = max_prefixlen (net_version self) then Inr [Inr self]
      else if new_prefix < prefixlen self then Inl ValueError
      else
        let prefixlen_diff = new_prefix - prefixlen self;
            new_prefixlen = prefixlen self + prefixlen_diff
        in if new_prefixlen > max_prefixlen (net_version self) then Inl ValueError
           else
             let start = network_address self;
                 stop = broadcast_address self + 1;
                 step = drop_bit prefixlen_diff (hostmask self + 1)
             in if step = 0 then Inl ValueError
                else Inr (map (\<lambda>new_addr. IPNetwork (net_version self) new_addr new_prefixlen)
                            (py_range start stop step)))"

section \<open>\<open>find_subnet\<close>\<close>

text \<open>
  The inner loop of \<open>find_subnet\<close>: the first sub-network the generator yields that overlaps
  no element of \<open>reserved\<close>.
\<close>

definition no_overlap :: "ip_network set \<Rightarrow> ip_network \<Rightarrow> bool" where
  "no_overlap reserved subnet = (\<forall>x \<in> reserved. \<not> overlaps subnet x)"

fun first_free :: "ip_network set \<Rightarrow> (py_error + ip_network) list \<Rightarrow> py_error + ip_network option" where
  "first_free reserved [] = Inr None"
| "first_free reserved (Inl e # rest) = Inl e"
| "first_free reserved (Inr subnet # rest) =
     (if no_overlap reserved subnet then Inr (Some subnet) else first_free reserved rest)"

fun find_subnet_loop :: "ip_network \<Rightarrow> ip_network set \<Rightarrow> nat list \<Rightarrow> py_error + ip_network option" where
  "find_subnet_loop network reserved [] = Inr None"
| "find_subnet_loop network reserved (prefix_len # rest) =
     (case subnets network prefix_len of
        Inl e \<Rightarrow> Inl e
      | Inr gen \<Rightarrow>
          (case first_free reserved gen of
             Inl e \<Rightarrow> Inl e
           | Inr (Some subnet) \<Rightarrow> Inr (Some subnet)
           | Inr None \<Rightarrow> find_subnet_loop network reserved rest))"

definition find_subnet :: "ip_network \<Rightarrow> ip_network set \<Rightarrow> py_error + ip_network option" where
  "find_subnet network reserved =
     find_subnet_loop network reserved
       [prefixlen network + 1 ..< max_prefixlen (net_version network) - 1]"

text \<open>
  The candidates the specification speaks of: the valid networks that are sub-networks of the
  parent and whose prefix length lies between the parent's plus one and the maximum minus two.
\<close>

definition candidate :: "ip_network \<Rightarrow> ip_network \<Rightarrow> bool" where
  "candidate network c =
     (valid_network c \<and> subnet_of c network = Inr True \<and>
      prefixlen network + 1 \<le> prefixlen c \<and>
      prefixlen c \<le> max_prefixlen (net_version network) - 2)"

section \<open>\<open>ipaddress.summarize_address_range\<close>\<close>

text \<open>\<open>int.bit_length()\<close> of a non-negative integer.\<close>

fun bit_length :: "nat \<Rightarrow> nat" where
  "bit_length n = (if n = 0 then 0 else Suc (bit_length (n div 2)))"

declare bit_length.simps [simp del]

text \<open>
  \<open>_count_righthand_zero_bits(number, bits)\<close>. The expression \<open>~number & (number - 1)\<close> is
  computed on Python's unbounded integers (\<open>~number\<close> is negative); its value is not negative
  when \<open>number\<close> is positive.
\<close>

definition count_righthand_zero_bits :: "nat \<Rightarrow> nat \<Rightarrow> nat" where
  "count_righthand_zero_bits number bits =
     (if number = 0 then bits
      else min bits (bit_length (nat (NOT (int number) AND (int number - 1)))))"

text \<open>
  The \<open>while\<close> loop of \<open>summarize_address_range\<close>. The caller consumes the whole generator
  (\<open>set.update\<close>), so the networks are collected in a list and an exception ends the run.
\<close>

function summarize_loop :: "ip_version \<Rightarrow> nat \<Rightarrow> nat \<Rightarrow> py_error + ip_network list" where
  "summarize_loop v first_int last_int =
     (if first_int \<le> last_int then
        (let ip_bits = max_prefixlen v;
             nbits = min (count_righthand_zero_bits first_int ip_bits)
                         (bit_length (last_int - first_int + 1) - 1)
         in case IPNetwork v first_int (ip_bits - nbits) of
              Inl e \<Rightarrow> Inl e
            | Inr net \<Rightarrow>
                if first_int + 2 ^ nbits - 1 = ALL_ONES v then Inr [net]
                else (case summarize_loop v (first_int + 2 ^ nbits) last_int of
                        Inl e \<Rightarrow> Inl e
                      | Inr nets \<Rightarrow> Inr (net # nets)))
      else Inr [])"
  by pat_completeness auto
termination
proof (relation "measure (\<lambda>(v, first_int, last_int). Suc last_int - first_int)")
  show "wf (measure (\<lambda>(v, first_int, last_int). Suc last_int - first_int))" by simp
next
  fix v :: ip_version and first_int last_int x xa :: nat
  assume "first_int \<le> last_int"
  moreover have "(0::nat) < 2 ^ xa" by simp
  ultimately have "Suc last_int - (first_int + 2 ^ xa) < Suc last_int - first_int" by linarith
  then show "((v, first_int + 2 ^ xa, last_int), v, first_int, last_int)
               \<in> measure (\<lambda>(v, first_int, last_int). Suc last_int - first_int)"
    by simp
qed

declare summarize_loop.simps [simp del]

definition summarize_address_range :: "ip_address \<Rightarrow> ip_address \<Rightarrow> py_error + ip_network list" where
  "summarize_address_range first_addr last_addr =
     (if addr_version first_addr \<noteq> addr_version last_addr then Inl TypeError
      else if addr_ip first_addr > addr_ip last_addr then Inl ValueError
      else summarize_loop (addr_version first_addr) (addr_ip first_addr) (addr_ip last_addr))"

section \<open>Python strings\<close>

text \<open>
  A string is a list of characters. The model covers ASCII text: the character classes below
  (\<open>str.isspace\<close> and the regular expressions' \<open>\s\<close>, the decimal digits, \<open>str.lower\<close>)
  are Python's on the characters below 128 and treat every other character as an ordinary one.
\<close>

definition py_isspace :: "char \<Rightarrow> bool" where
  "py_isspace c =
     (c \<in> set [CHR 0x09, CHR 0x0A, CHR 0x0B, CHR 0x0C, CHR 0x0D,
               CHR 0x1C, CHR 0x1D, CHR 0x1E, CHR 0x1F, CHR 0x20])"

definition lstrip :: "string \<Rightarrow> string" where
  "lstrip s = dropWhile py_isspace s"

definition rstrip :: "string \<Rightarrow> string" where
  "rstrip s = rev (dropWhile py_isspace (rev s))"

definition strip :: "string \<Rightarrow> string" where
  "strip s = lstrip (rstrip s)"

text \<open>\<open>s.rstrip(chars)\<close> and \<open>s.strip(chars)\<close>.\<close>

definition rstrip_chars :: "string \<Rightarrow> string \<Rightarrow> string" where
  "rstrip_chars chars s = rev (dropWhile (\<lambda>c. c \<in> set chars) (rev s))"

definition strip_chars :: "string \<Rightarrow> string \<Rightarrow> string" where
  "strip_chars chars s = dropWhile (\<lambda>c. c \<in> set chars) (rstrip_chars chars s)"

text \<open>\<open>s.split()\<close>: the maximal runs of characters that are not whitespace.\<close>

fun split_ws_aux :: "string \<Rightarrow> string \<Rightarrow> string list" where
  "split_ws_aux cur [] = (if cur = [] then [] else [cur])"
| "split_ws_aux cur (c # cs) =
     (if py_isspace c then (if cur = [] then split_ws_aux [] cs else cur # split_ws_aux [] cs)
      else split_ws_aux (cur @ [c]) cs)"

definition split_ws :: "string \<Rightarrow> string list" where
  "split_ws s = split_ws_aux [] s"

text \<open>\<open>s.split(sep)\<close> for a separator of one character: empty pieces are kept.\<close>

fun split_on_aux :: "char \<Rightarrow> string \<Rightarrow> string \<Rightarrow> string list" where
  "split_on_aux sep cur [] = [cur]"
| "split_on_aux sep cur (c # cs) =
     (if c = sep then cur # split_on_aux sep [] cs else split_on_aux sep (cur @ [c]) cs)"

definition split_on :: "char \<Rightarrow> string \<Rightarrow> string list" where
  "split_on sep s = split_on_aux sep [] s"

definition startswith :: "string \<Rightarrow> string \<Rightarrow> bool" where
  "startswith s p = (take (length p) s = p)"

text \<open>\<open>s.replace(old, '')\<close> for a non-empty \<open>old\<close>: occurrences are removed from left to right.\<close>

function remove_sub :: "string \<Rightarrow> string \<Rightarrow> string" where
  "remove_sub old s =
     (if s = [] \<or> old = [] then s
      else if startswith s old then remove_sub old (drop (length old) s)
      else hd s # remove_sub old (tl s))"
  by pat_completeness auto
termination
  by (relation "measure (\<lambda>(old, s). length s)") auto

declare remove_sub.simps [simp del]

definition lower_char :: "char \<Rightarrow> char" where
  "lower_char c =
     (case map_of (zip ''ABCDEFGHIJKLMNOPQRSTUVWXYZ'' ''abcdefghijklmnopqrstuvwxyz'') c of
        Some l \<Rightarrow> l
      | None \<Rightarrow> c)"

definition lower :: "string \<Rightarrow> string" where
  "lower s = map lower_char s"

definition is_digit :: "char \<Rightarrow> bool" where
  "is_digit c = (c \<in> set ''0123456789'')"

text \<open>
  The value of a digit in \<open>int(s, base)\<close> for a base of at most 16; 37 stands for a
  character that is no digit of such a base.
\<close>

definition digit_value :: "char \<Rightarrow> nat" where
  "digit_value c =
     (case map_of
        [(CHR ''0'', 0), (CHR ''1'', 1), (CHR ''2'', 2), (CHR ''3'', 3), (CHR ''4'', 4),
         (CHR ''5'', 5), (CHR ''6'', 6), (CHR ''7'', 7), (CHR ''8'', 8), (CHR ''9'', 9),
         (CHR ''a'', 10), (CHR ''b'', 11), (CHR ''c'', 12), (CHR ''d'', 13), (CHR ''e'', 14),
         (CHR ''f'', 15)] (lower_char c) of
        Some d \<Rightarrow> d
      | None \<Rightarrow> 37)"

definition nat_of_digits :: "nat \<Rightarrow> string \<Rightarrow> nat" where
  "nat_of_digits base s = foldl (\<lambda>acc c. acc * base + digit_value c) 0 s"

text \<open>
  The whitespace that \<open>int(s, base)\<close> skips around the number. The conversion skips the
  whitespace of the C locale, the characters 0x09 to 0x0D and 0x20, and not the separators 0x1C
  to 0x1F that \<open>str.isspace\<close> accepts. In a string with a character beyond ASCII it reads the
  Unicode whitespace beyond ASCII as a space first: of the characters below 256 these are 0x85
  and 0xA0.
\<close>

definition int_isspace :: "char \<Rightarrow> bool" where
  "int_isspace c =
     (c \<in> set [CHR 0x09, CHR 0x0A, CHR 0x0B, CHR 0x0C, CHR 0x0D, CHR 0x20, CHR 0x85, CHR 0xA0])"

text \<open>
  \<open>int(s, base)\<close> for a string and base 10 or 16, \<open>None\<close> for ValueError: whitespace around
  the number, a sign, for base 16 the prefix \<open>0x\<close> (and one underscore after it), then digits
  with single underscores between them. (CPython 3.11 also refuses a base 10 number of more than
  4300 digits; the model has no such limit.)
\<close>

fun has_double_underscore :: "string \<Rightarrow> bool" where
  "has_double_underscore (a # b # cs) =
     ((a = CHR ''_'' \<and> b = CHR ''_'') \<or> has_double_underscore (b # cs))"
| "has_double_underscore cs = False"

definition py_int :: "nat \<Rightarrow> string \<Rightarrow> int option" where
  "py_int base s =
     (let s1 = dropWhile int_isspace s;
          negative = startswith s1 ''-'';
          s2 = (if startswith s1 ''+'' \<or> startswith s1 ''-'' then tl s1 else s1);
          s3 = (if base = 16 \<and> (startswith s2 ''0x'' \<or> startswith s2 ''0X'')
                then (let r = drop 2 s2 in if startswith r ''_'' then tl r else r)
                else s2);
          body = takeWhile (\<lambda>c. digit_value c < base \<or> c = CHR ''_'') s3;
          rest = dropWhile (\<lambda>c. digit_value c < base \<or> c = CHR ''_'') s3;
          digits = filter (\<lambda>c. c \<noteq> CHR ''_'') body
      in if startswith s3 ''_'' then None
         else if has_double_underscore body then None
         else if body \<noteq> [] \<and> last body = CHR ''_'' then None
         else if body = [] then None
         else if dropWhile int_isspace rest \<noteq> [] then None
         else let n = int (nat_of_digits base digits)
              in Some (if negative then - n else n))"

text \<open>\<open>str(n)\<close> for an integer.\<close>

fun str_of_nat :: "nat \<Rightarrow> string" where
  "str_of_nat n =
     (if n < 10 then [''0123456789'' ! n]
      else str_of_nat (n div 10) @ [''0123456789'' ! (n mod 10)])"

declare str_of_nat.simps [simp del]

definition str_of_int :: "int \<Rightarrow> string" where
  "str_of_int i = (if i < 0 then CHR ''-'' # str_of_nat (nat (- i)) else str_of_nat (nat i))"

section \<open>\<open>ipaddress\<close>: addresses and networks from strings\<close>

text \<open>\<open>_BaseV4._parse_octet\<close>; \<open>None\<close> for ValueError.\<close>

definition parse_octet :: "string \<Rightarrow> nat option" where
  "parse_octet octet_str =
     (if octet_str = [] then None
      else if \<not> (\<forall>c \<in> set octet_str. is_digit c) then None
      else if length octet_str > 3 then None
      else if octet_str \<noteq> ''0'' \<and> hd octet_str = CHR ''0'' then None
      else let octet_int = nat_of_digits 10 octet_str
           in if octet_int > 255 then None else Some octet_int)"

fun parse_octets :: "string list \<Rightarrow> nat list option" where
  "parse_octets [] = Some []"
| "parse_octets (s # ss) =
     (case parse_octet s of
        None \<Rightarrow> None
      | Some n \<Rightarrow> (case parse_octets ss of None \<Rightarrow> None | Some ns \<Rightarrow> Some (n # ns)))"

text \<open>\<open>_BaseV4._ip_int_from_string\<close>; \<open>None\<close> for AddressValueError.\<close>

definition ip_int_from_string :: "string \<Rightarrow> nat option" where
  "ip_int_from_string ip_str =
     (if ip_str = [] then None
      else let octets = split_on CHR ''.'' ip_str
           in if length octets \<noteq> 4 then None
              else (case parse_octets octets of
                      None \<Rightarrow> None
                    | Some ns \<Rightarrow> Some (foldl (\<lambda>acc n. acc * 256 + n) 0 ns)))"

text \<open>\<open>IPv4Address(s)\<close> for a string; \<open>None\<close> for AddressValueError.\<close>

definition IPv4Address_of_string :: "string \<Rightarrow> nat option" where
  "IPv4Address_of_string addr_str =
     (if CHR ''/'' \<in> set addr_str then None else ip_int_from_string addr_str)"

text \<open>
  The IPv6 classes are not modelled on strings. \<open>IPv6Address(s)\<close> and \<open>IPv6Network(s)\<close> raise
  AddressValueError for every string with fewer than two colons (\<open>_split_scope_id\<close> and the
  part count of \<open>_ip_int_from_string\<close>); for any other string the model answers
  \<open>Unmodelled\<close>.
\<close>

definition ipv6_fallback :: "string \<Rightarrow> py_error" where
  "ipv6_fallback s =
     (if length (filter (\<lambda>c. c = CHR '':'') s) < 2 then ValueError else Unmodelled)"

text \<open>\<open>ipaddress.ip_address(s)\<close> for a string.\<close>

definition ip_address :: "string \<Rightarrow> py_error + ip_address" where
  "ip_address address =
     (case IPv4Address_of_string address of
        Some n \<Rightarrow> Inr \<lparr>addr_version = IPv4, addr_ip = n\<rparr>
      | None \<Rightarrow> Inl (ipv6_fallback address))"

text \<open>\<open>_prefix_from_prefix_string\<close>, \<open>_prefix_from_ip_int\<close>, \<open>_prefix_from_ip_string\<close> of IPv4;
  \<open>None\<close> for NetmaskValueError (for ValueError in \<open>prefix_from_ip_int\<close>).\<close>

definition prefix_from_prefix_string :: "string \<Rightarrow> nat option" where
  "prefix_from_prefix_string prefixlen_str =
     (if \<not> (prefixlen_str \<noteq> [] \<and> (\<forall>c \<in> set prefixlen_str. is_digit c)) then None
      else let plen = nat_of_digits 10 prefixlen_str
           in if plen \<le> 32 then Some plen else None)"

definition prefix_from_ip_int :: "nat \<Rightarrow> nat option" where
  "prefix_from_ip_int ip_int =
     (let trailing_zeroes = count_righthand_zero_bits ip_int 32;
          plen = 32 - trailing_zeroes;
          leading_ones = drop_bit trailing_zeroes ip_int;
          all_ones = 2 ^ plen - 1
      in if leading_ones \<noteq> all_ones then None else Some plen)"

definition prefix_from_ip_string :: "string \<Rightarrow> nat option" where
  "prefix_from_ip_string ip_str =
     (case ip_int_from_string ip_str of
        None \<Rightarrow> None
      | Some ip_int \<Rightarrow>
          (case prefix_from_ip_int ip_int of
             Some p \<Rightarrow> Some p
           | None \<Rightarrow> prefix_from_ip_int (ip_int XOR ALL_ONES IPv4)))"

text \<open>An argument of the network constructor: a string, or an integer (a \<open>bool\<close> is one).\<close>

datatype ip_arg = ArgStr string | ArgInt nat

text \<open>\<open>_BaseV4._make_netmask\<close> (the cache only remembers results); \<open>None\<close> for NetmaskValueError.\<close>

definition make_netmask :: "ip_arg \<Rightarrow> nat option" where
  "make_netmask arg =
     (case arg of
        ArgInt n \<Rightarrow> (if n \<le> 32 then Some n else None)
      | ArgStr s \<Rightarrow>
          (case prefix_from_prefix_string s of
             Some p \<Rightarrow> Some p
           | None \<Rightarrow> prefix_from_ip_string s))"

text \<open>
  \<open>IPv4Network((addr, mask))\<close> with \<open>strict=True\<close>: \<open>Inl AddressValueError\<close> and
  \<open>Inl NetmaskValueError\<close> are the two exceptions \<open>ip_network\<close> catches.
\<close>

definition IPv4Network_of :: "ip_arg \<Rightarrow> ip_arg \<Rightarrow> py_error + ip_network" where
  "IPv4Network_of addr mask_arg =
     (case (case addr of
              ArgInt n \<Rightarrow> (if n > ALL_ONES IPv4 then None else Some n)
            | ArgStr s \<Rightarrow> IPv4Address_of_string s) of
        None \<Rightarrow> Inl AddressValueError
      | Some packed \<Rightarrow>
          (case make_netmask mask_arg of
             None \<Rightarrow> Inl NetmaskValueError
           | Some p \<Rightarrow>
               if packed AND ip_int_from_prefix IPv4 p \<noteq> packed then Inl ValueError
               else Inr \<lparr>net_version = IPv4, network_address = packed, prefixlen = p\<rparr>))"

text \<open>What \<open>ip_network\<close> does after \<open>IPv4Network\<close> raised one of the two exceptions it catches:
  \<open>IPv6Network\<close> on the same argument. An integer address below \<open>2 ** 128\<close> is accepted by
  \<open>IPv6Address\<close>, which the model does not follow further.\<close>

definition ipv6_network_fallback :: "ip_arg \<Rightarrow> py_error" where
  "ipv6_network_fallback addr =
     (case addr of ArgStr s \<Rightarrow> ipv6_fallback s | ArgInt n \<Rightarrow> Unmodelled)"

text \<open>\<open>ipaddress.ip_network((addr, mask))\<close> on a pair.\<close>

definition ip_network_pair :: "ip_arg \<Rightarrow> ip_arg \<Rightarrow> py_error + ip_network" where
  "ip_network_pair addr mask_arg =
     (case IPv4Network_of addr mask_arg of
        Inl AddressValueError \<Rightarrow> Inl (ipv6_network_fallback addr)
      | Inl NetmaskValueError \<Rightarrow> Inl (ipv6_network_fallback addr)
      | r \<Rightarrow> r)"

text \<open>
  \<open>ipaddress.ip_network(s)\<close> on one string: \<open>_split_optional_netmask\<close> splits it at \<open>/\<close>
  (more than one \<open>/\<close> is an AddressValueError in both classes), and a missing mask is the
  maximal prefix length.
\<close>

definition ip_network_str :: "string \<Rightarrow> py_error + ip_network" where
  "ip_network_str address =
     (let parts = split_on CHR ''/'' address
      in if length parts > 2 then Inl ValueError
         else ip_network_pair (ArgStr (hd parts))
                (if length parts > 1 then ArgStr (parts ! 1) else ArgInt 32))"

section \<open>\<open>parse_dhcpd_conf\<close>\<close>

text \<open>
  The three regular expressions, each used with \<open>match\<close> (anchored at the start of the line).
  In all of them a greedy repetition is followed by a character outside its class, so a match,
  if there is one, takes the maximal run at every repetition and backtracking finds no other.
\<close>

definition match_literal :: "string \<Rightarrow> string \<Rightarrow> string option" where
  "match_literal lit s = (if startswith s lit then Some (drop (length lit) s) else None)"

text \<open>\<open>\s+\<close>: the rest of the line after the run.\<close>

definition match_spaces1 :: "string \<Rightarrow> string option" where
  "match_spaces1 s = (if s \<noteq> [] \<and> py_isspace (hd s) then Some (dropWhile py_isspace s) else None)"

text \<open>A group \<open>[...]+\<close>: the group and the rest of the line.\<close>

definition match_class1 :: "(char \<Rightarrow> bool) \<Rightarrow> string \<Rightarrow> (string \<times> string) option" where
  "match_class1 P s = (if s \<noteq> [] \<and> P (hd s) then Some (takeWhile P s, dropWhile P s) else None)"

definition is_digit_or_dot :: "char \<Rightarrow> bool" where
  "is_digit_or_dot c = (is_digit c \<or> c = CHR ''.'')"

text \<open>
  \<open>^\s*subnet\s+(?P<net>[0-9.]+)\s+netmask\s+(?P<mask>[0-9.]+)\s+{\s*\<close>: the groups
  \<open>net\<close> and \<open>mask\<close>.
\<close>

definition re_section_subnet :: "string \<Rightarrow> (string \<times> string) option" where
  "re_section_subnet line = do {
     s1 \<leftarrow> match_literal ''subnet'' (dropWhile py_isspace line);
     s2 \<leftarrow> match_spaces1 s1;
     (net, s3) \<leftarrow> match_class1 is_digit_or_dot s2;
     s4 \<leftarrow> match_spaces1 s3;
     s5 \<leftarrow> match_literal ''netmask'' s4;
     s6 \<leftarrow> match_spaces1 s5;
     (mask_str, s7) \<leftarrow> match_class1 is_digit_or_dot s6;
     s8 \<leftarrow> match_spaces1 s7;
     s9 \<leftarrow> match_literal ''{'' s8;
     Some (net, mask_str)
   }"

text \<open>
  \<open>^\s*[^;]+\s*;\s*$\<close>. The class \<open>[^;]\<close> holds the whitespace too, so the pattern matches
  when the text before the first semicolon is not empty and only whitespace follows the
  semicolon.
\<close>

definition re_line :: "string \<Rightarrow> bool" where
  "re_line line =
     (let before = takeWhile (\<lambda>c. c \<noteq> CHR '';'') line;
          rest = dropWhile (\<lambda>c. c \<noteq> CHR '';'') line
      in before \<noteq> [] \<and> rest \<noteq> [] \<and> (\<forall>c \<in> set (tl rest). py_isspace c))"

text \<open>\<open>^\s*}\s*$\<close>\<close>

definition re_end :: "string \<Rightarrow> bool" where
  "re_end line =
     (case match_literal ''}'' (dropWhile py_isspace line) of
        None \<Rightarrow> False
      | Some rest \<Rightarrow> (\<forall>c \<in> set rest. py_isspace c))"

text \<open>
  The dictionary of a \<open>subnet\<close> section: the groups of the match, \<open>network\<close>, \<open>reserved\<close>,
  and \<open>domain\<close> once an \<open>option domain-name\<close> line has set it.
\<close>

record dhcpd_subnet =
  ds_net :: string
  ds_mask :: string
  ds_network :: ip_network
  ds_reserved :: "ip_network set"
  ds_domain :: "string option"

record dhcpd_state =
  cur_section :: "string option"
  results :: "string \<rightharpoonup> dhcpd_subnet"

text \<open>\<open>ipaddress.ip_network(x) for x in parts[2:]\<close>, consumed by \<open>set.update\<close>.\<close>

fun ip_networks :: "string list \<Rightarrow> py_error + ip_network list" where
  "ip_networks [] = Inr []"
| "ip_networks (x # xs) =
     (case ip_network_str x of
        Inl e \<Rightarrow> Inl e
      | Inr n \<Rightarrow> (case ip_networks xs of Inl e \<Rightarrow> Inl e | Inr ns \<Rightarrow> Inr (n # ns)))"

text \<open>A statement line inside a \<open>subnet\<close> section, already split into \<open>parts\<close>.\<close>

definition subnet_statement :: "dhcpd_subnet \<Rightarrow> string list \<Rightarrow> py_error + dhcpd_subnet" where
  "subnet_statement ptr parts =
     (if parts = [] then Inl IndexError
      else if parts ! 0 = ''range'' then
        (if length parts < 2 then Inl IndexError
         else
           (case ip_address (parts ! 1) of
              Inl e \<Rightarrow> Inl e
            | Inr first_addr \<Rightarrow>
                if length parts < 3 then Inl IndexError
                else
                  (case ip_address (parts ! 2) of
                     Inl e \<Rightarrow> Inl e
                   | Inr last_addr \<Rightarrow>
                       (case summarize_address_range first_addr last_addr of
                          Inl e \<Rightarrow> Inl e
                        | Inr nets \<Rightarrow>
                            Inr (ptr\<lparr>ds_reserved := ds_reserved ptr \<union> set nets\<rparr>)))))
      else if parts ! 0 = ''option'' then
        (if length parts < 2 then Inl IndexError
         else if parts ! 1 \<in> set [''broadcast-address'', ''domain-name-servers'',
                                  ''netbios-name-servers'', ''routers''] then
           (case ip_networks (drop 2 parts) of
              Inl e \<Rightarrow> Inl e
            | Inr nets \<Rightarrow> Inr (ptr\<lparr>ds_reserved := ds_reserved ptr \<union> set nets\<rparr>))
         else if parts ! 1 = ''domain-name'' then
           (if length parts < 3 then Inl IndexError
            else Inr (ptr\<lparr>ds_domain := Some (strip_chars [CHR 0x22] (parts ! 2))\<rparr>))
         else Inr ptr)
      else Inr ptr)"

text \<open>The body of the \<open>for\<close> loop over the lines of the file.\<close>

definition dhcpd_line :: "dhcpd_state \<Rightarrow> string \<Rightarrow> py_error + dhcpd_state" where
  "dhcpd_line st raw =
     (let line = rstrip raw in
      (case cur_section st of
        None \<Rightarrow>
          (case re_section_subnet line of
             None \<Rightarrow> Inr st
           | Some (net, mask_str) \<Rightarrow>
               (case ip_network_pair (ArgStr net) (ArgStr mask_str) of
                  Inl e \<Rightarrow> Inl e
                | Inr network \<Rightarrow>
                    Inr \<lparr>cur_section = Some ''subnet'',
                         results = (results st)(''subnet'' \<mapsto>
                           \<lparr>ds_net = net, ds_mask = mask_str, ds_network = network,
                            ds_reserved = {}, ds_domain = None\<rparr>)\<rparr>))
      | Some sec \<Rightarrow>
          if re_line line then
            (let parts = split_ws (rstrip_chars '';'' (strip line)) in
             (case results st sec of
                None \<Rightarrow> Inl (KeyError sec)
              | Some ptr \<Rightarrow>
                  if sec = ''subnet'' then
                    (case subnet_statement ptr parts of
                       Inl e \<Rightarrow> Inl e
                     | Inr ptr' \<Rightarrow> Inr (st\<lparr>results := (results st)(sec \<mapsto> ptr')\<rparr>))
                  else Inr st))
          else if re_end line then Inr (st\<lparr>cur_section := None\<rparr>)
          else Inr st))"

fun dhcpd_lines :: "dhcpd_state \<Rightarrow> string list \<Rightarrow> py_error + dhcpd_state" where
  "dhcpd_lines st [] = Inr st"
| "dhcpd_lines st (l # ls) =
     (case dhcpd_line st l of Inl e \<Rightarrow> Inl e | Inr st' \<Rightarrow> dhcpd_lines st' ls)"

definition parse_dhcpd_conf :: "string list \<Rightarrow> py_error + (string \<rightharpoonup> dhcpd_subnet)" where
  "parse_dhcpd_conf stream =
     (case dhcpd_lines \<lparr>cur_section = None, results = Map.empty\<rparr> stream of
        Inl e \<Rightarrow> Inl e
      | Inr st \<Rightarrow> Inr (results st))"

text \<open>
  What the specification asks of the networks computed from a \<open>range\<close> statement: an address
  lies in one of them exactly when it lies between the first and the last address of the range.
\<close>

definition covers_exactly :: "ip_network set \<Rightarrow> ip_address \<Rightarrow> ip_address \<Rightarrow> bool" where
  "covers_exactly nets first_addr last_addr =
     (\<forall>a. valid_address a \<longrightarrow>
        ((\<exists>n \<in> nets. contains n a) \<longleftrightarrow>
         (addr_version a = addr_version first_addr \<and>
          addr_ip first_addr \<le> addr_ip a \<and> addr_ip a \<le> addr_ip last_addr)))"

section \<open>\<open>parse_vmx\<close>\<close>

text \<open>
  \<open>uuid.UUID(hex)\<close> for a string: the value as a natural number below \<open>2 ** 128\<close>, or
  ValueError.
\<close>

definition uuid_UUID :: "string \<Rightarrow> py_error + nat" where
  "uuid_UUID hex =
     (let h1 = remove_sub ''uuid:'' (remove_sub ''urn:'' hex);
          h2 = filter (\<lambda>c. c \<noteq> CHR ''-'') (strip_chars ''{}'' h1)
      in if length h2 \<noteq> 32 then Inl ValueError
         else (case py_int 16 h2 of
                 None \<Rightarrow> Inl ValueError
               | Some i \<Rightarrow> if 0 \<le> i \<and> i < 2 ^ 128 then Inr (nat i) else Inl ValueError))"

text \<open>
  The continuation \<open>(?P<key>[^ ]+) = "(?P<value>[^"]+)"$\<close> of the pattern on the rest of a
  line: the key runs to the first space, the value to the next double quote, and \<open>$\<close> accepts
  the end of the string or one final newline.
\<close>

definition match_key_value :: "string \<Rightarrow> (string \<times> string) option" where
  "match_key_value s = do {
     (key, s1) \<leftarrow> match_class1 (\<lambda>c. c \<noteq> CHR '' '') s;
     s2 \<leftarrow> match_literal [CHR '' '', CHR ''='', CHR '' '', CHR 0x22] s1;
     (val, s3) \<leftarrow> match_class1 (\<lambda>c. c \<noteq> CHR 0x22) s2;
     s4 \<leftarrow> match_literal [CHR 0x22] s3;
     if s4 = [] \<or> s4 = [CHR 0x0A] then Some (key, val) else None
   }"

text \<open>
  \<open>^((?P<section>[^.]*)\.|)(?P<key>[^ ]+) = "(?P<value>[^"]+)"$\<close>: the groups \<open>section\<close>
  (\<open>None\<close> when the empty alternative matched), \<open>key\<close> and \<open>value\<close>. The first alternative
  can only end at the first full stop of the line; when the rest of the pattern fails after it,
  the empty alternative is tried from the start of the line.
\<close>

definition re_eth :: "string \<Rightarrow> (string option \<times> string \<times> string) option" where
  "re_eth line =
     (let sec = takeWhile (\<lambda>c. c \<noteq> CHR ''.'') line;
          rest = dropWhile (\<lambda>c. c \<noteq> CHR ''.'') line;
          first_alternative =
            (if rest = [] then None
             else map_option (\<lambda>(key, val). (Some sec, key, val)) (match_key_value (tl rest)))
      in case first_alternative of
           Some m \<Rightarrow> Some m
         | None \<Rightarrow> map_option (\<lambda>(key, val). (None, key, val)) (match_key_value line))"

datatype vmx_value = VBool bool | VInt int | VUuid nat | VStr string

text \<open>
  An entry of the result: a value stored under a key without section, or the dictionary of a
  section.
\<close>

datatype vmx_entry = Scalar vmx_value | Section "(string \<times> vmx_value) list"

text \<open>The chain of conditions that types a value.\<close>

definition typed_value :: "bool \<Rightarrow> string option \<Rightarrow> string \<Rightarrow> py_error + vmx_value" where
  "typed_value parse_uuid sec val =
     (if val = ''TRUE'' then Inr (VBool True)
      else if val = ''FALSE'' then Inr (VBool False)
      else if sec = Some ''uuid'' \<and> parse_uuid then
        (case uuid_UUID (filter (\<lambda>c. c \<noteq> CHR '' '') val) of
           Inl e \<Rightarrow> Inl e
         | Inr u \<Rightarrow> Inr (VUuid u))
      else (case py_int 10 val of Some i \<Rightarrow> Inr (VInt i) | None \<Rightarrow> Inr (VStr val)))"

text \<open>
  The assignment at the end of the loop body. \<open>sections\<close> is a \<open>defaultdict(dict)\<close>: a missing
  section is created; a key that holds a value which is no dictionary refuses item assignment
  (TypeError).
\<close>

definition vmx_store ::
  "(string \<times> vmx_entry) list \<Rightarrow> string option \<Rightarrow> string \<Rightarrow> vmx_value
     \<Rightarrow> py_error + (string \<times> vmx_entry) list" where
  "vmx_store sections sec key v =
     (case sec of
        None \<Rightarrow> Inr (AList.update key (Scalar v) sections)
      | Some s \<Rightarrow>
          (case map_of sections s of
             None \<Rightarrow> Inr (AList.update s (Section [(key, v)]) sections)
           | Some (Section d) \<Rightarrow> Inr (AList.update s (Section (AList.update key v d)) sections)
           | Some (Scalar x) \<Rightarrow> Inl TypeError))"

definition vmx_line ::
  "bool \<Rightarrow> (string \<times> vmx_entry) list \<Rightarrow> string \<Rightarrow> py_error + (string \<times> vmx_entry) list" where
  "vmx_line parse_uuid sections line =
     (case re_eth line of
        None \<Rightarrow> Inr sections
      | Some (sec, key, val) \<Rightarrow>
          (case typed_value parse_uuid sec val of
             Inl e \<Rightarrow> Inl e
           | Inr v \<Rightarrow> vmx_store sections sec key v))"

fun vmx_lines ::
  "bool \<Rightarrow> (string \<times> vmx_entry) list \<Rightarrow> string list \<Rightarrow> py_error + (string \<times> vmx_entry) list" where
  "vmx_lines parse_uuid sections [] = Inr sections"
| "vmx_lines parse_uuid sections (l # ls) =
     (case vmx_line parse_uuid sections l of
        Inl e \<Rightarrow> Inl e
      | Inr sections' \<Rightarrow> vmx_lines parse_uuid sections' ls)"

definition parse_vmx :: "bool \<Rightarrow> string list \<Rightarrow> py_error + (string \<times> vmx_entry) list" where
  "parse_vmx parse_uuid stream = vmx_lines parse_uuid [] stream"

section \<open>\<open>parse_networking\<close>\<close>

text \<open>
  \<open>^answer VNET_(?P<num>[0-9]+)_(?P<key>[^ ]+) (?P<value>.*)$\<close>: the groups \<open>num\<close>, \<open>key\<close>
  and \<open>value\<close>. The dot matches every character but the newline.
\<close>

definition re_answer :: "string \<Rightarrow> (string \<times> string \<times> string) option" where
  "re_answer line = do {
     s1 \<leftarrow> match_literal ''answer VNET_'' line;
     (num, s2) \<leftarrow> match_class1 is_digit s1;
     s3 \<leftarrow> match_literal ''_'' s2;
     (key, s4) \<leftarrow> match_class1 (\<lambda>c. c \<noteq> CHR '' '') s3;
     s5 \<leftarrow> match_literal '' '' s4;
     let val = takeWhile (\<lambda>c. c \<noteq> CHR 0x0A) s5;
         s6 = dropWhile (\<lambda>c. c \<noteq> CHR 0x0A) s5
     in if s6 = [] \<or> s6 = [CHR 0x0A] then Some (num, key, val) else None
   }"

text \<open>
  The values of a network's dictionary: the parser stores booleans and strings and the derived
  network; \<open>main\<close> later stores a domain (a string) and the result of \<open>find_subnet\<close> (a network
  or \<open>None\<close>).
\<close>

datatype net_value = NBool bool | NStr string | NNet ip_network | NNone

type_synonym net_info = "(string \<times> net_value) list"

definition answer_value :: "string \<Rightarrow> net_value" where
  "answer_value val =
     (if val = ''yes'' then NBool True else if val = ''no'' then NBool False else NStr val)"

text \<open>\<open>ret[vmnet][key] = value\<close> on a \<open>defaultdict(dict)\<close>.\<close>

definition networking_store ::
  "(string \<times> net_info) list \<Rightarrow> string \<Rightarrow> string \<Rightarrow> net_value \<Rightarrow> (string \<times> net_info) list" where
  "networking_store ret vmnet key v =
     (case map_of ret vmnet of
        None \<Rightarrow> AList.update vmnet [(key, v)] ret
      | Some info \<Rightarrow> AList.update vmnet (AList.update key v info) ret)"

definition networking_line :: "(string \<times> net_info) list \<Rightarrow> string \<Rightarrow> (string \<times> net_info) list" where
  "networking_line ret line =
     (case re_answer line of
        None \<Rightarrow> ret
      | Some (num, key, val) \<Rightarrow>
          networking_store ret (''vmnet'' @ num) (lower key) (answer_value val))"

text \<open>An element of the pair given to \<open>ipaddress.ip_network\<close>: a \<open>bool\<close> is an integer.\<close>

definition ip_arg_of :: "net_value \<Rightarrow> ip_arg option" where
  "ip_arg_of v =
     (case v of
        NStr s \<Rightarrow> Some (ArgStr s)
      | NBool b \<Rightarrow> Some (ArgInt (if b then 1 else 0))
      | NNet n \<Rightarrow> None
      | NNone \<Rightarrow> None)"

text \<open>
  The body of the second loop: the derived network of one dictionary. The first loop stores
  booleans and strings only; for any other value the model answers \<open>Unmodelled\<close>.
\<close>

definition add_network :: "net_info \<Rightarrow> py_error + net_info" where
  "add_network info =
     (case (map_of info ''hostonly_netmask'', map_of info ''hostonly_subnet'') of
        (Some netmask_value, Some subnet_value) \<Rightarrow>
          (case (ip_arg_of subnet_value, ip_arg_of netmask_value) of
             (Some a, Some m) \<Rightarrow>
               (case ip_network_pair a m of
                  Inl e \<Rightarrow> Inl e
                | Inr n \<Rightarrow> Inr (AList.update ''network'' (NNet n) info))
           | _ \<Rightarrow> Inl Unmodelled)
      | _ \<Rightarrow> Inr info)"

fun add_networks :: "(string \<times> net_info) list \<Rightarrow> py_error + (string \<times> net_info) list" where
  "add_networks [] = Inr []"
| "add_networks ((vmnet, info) # rest) =
     (case add_network info of
        Inl e \<Rightarrow> Inl e
      | Inr info' \<Rightarrow>
          (case add_networks rest of
             Inl e \<Rightarrow> Inl e
           | Inr rest' \<Rightarrow> Inr ((vmnet, info') # rest')))"

definition parse_networking :: "string list \<Rightarrow> py_error + (string \<times> net_info) list" where
  "parse_networking stream = add_networks (foldl networking_line [] stream)"

section \<open>What the specification says of the two line parsers\<close>

text \<open>
  A typed value \<open>tv\<close> is recorded under the pair of section and key: at the top level when the
  line had no section, in the dictionary of the section otherwise.
\<close>

definition vmx_recorded ::
  "(string \<times> vmx_entry) list \<Rightarrow> string option \<Rightarrow> string \<Rightarrow> vmx_value \<Rightarrow> bool" where
  "vmx_recorded sections sec key tv =
     (case sec of
        None \<Rightarrow> map_of sections key = Some (Scalar tv)
      | Some s \<Rightarrow> (\<exists>d. map_of sections s = Some (Section d) \<and> map_of d key = Some tv))"

text \<open>
  The priority order of the typing policy: \<open>TRUE\<close> and \<open>FALSE\<close>; then the \<open>uuid\<close> section when
  UUIDs are parsed, with every space removed; then a base-10 integer; then the string itself.
\<close>

definition typing_policy :: "bool \<Rightarrow> string option \<Rightarrow> string \<Rightarrow> vmx_value \<Rightarrow> bool" where
  "typing_policy parse_uuid sec val tv =
     ((val = ''TRUE'' \<longrightarrow> tv = VBool True) \<and>
      (val = ''FALSE'' \<longrightarrow> tv = VBool False) \<and>
      (val \<noteq> ''TRUE'' \<and> val \<noteq> ''FALSE'' \<and> sec = Some ''uuid'' \<and> parse_uuid \<longrightarrow>
         (\<exists>u. uuid_UUID (filter (\<lambda>c. c \<noteq> CHR '' '') val) = Inr u \<and> tv = VUuid u)) \<and>
      (val \<noteq> ''TRUE'' \<and> val \<noteq> ''FALSE'' \<and> \<not> (sec = Some ''uuid'' \<and> parse_uuid) \<longrightarrow>
         (case py_int 10 val of Some i \<Rightarrow> tv = VInt i | None \<Rightarrow> tv = VStr val)))"

text \<open>
  A line of the networking file is recorded in the mapping: nothing is asked of a line that
  does not match; a matching line has its value, with the three outcomes \<open>yes\<close>, \<open>no\<close> and
  anything else, under the lower-cased key of the entry \<open>vmnet<N>\<close>.
\<close>

definition answer_recorded :: "(string \<times> net_info) list \<Rightarrow> string \<Rightarrow> bool" where
  "answer_recorded ret line =
     (case re_answer line of
        None \<Rightarrow> True
      | Some (num, key, val) \<Rightarrow>
          (\<exists>info. map_of ret (''vmnet'' @ num) = Some info \<and>
                  map_of info (lower key) =
                    Some (if val = ''yes'' then NBool True
                          else if val = ''no'' then NBool False
                          else NStr val)))"

text \<open>
  The derived network is attached: \<open>info'\<close> is \<open>info\<close> with the network that
  \<open>ipaddress.ip_network\<close> builds from the subnet address and the netmask under the key
  \<open>network\<close> when both keys are there, and \<open>info\<close> itself otherwise.
\<close>

definition network_attached :: "net_info \<Rightarrow> net_info \<Rightarrow> bool" where
  "network_attached info info' =
     (case (map_of info ''hostonly_netmask'', map_of info ''hostonly_subnet'') of
        (Some netmask_value, Some subnet_value) \<Rightarrow>
          (\<exists>a m n. ip_arg_of subnet_value = Some a \<and> ip_arg_of netmask_value = Some m \<and>
                   ip_network_pair a m = Inr n \<and>
                   info' = AList.update ''network'' (NNet n) info)
      | _ \<Rightarrow> info' = info)"

section \<open>\<open>main\<close>\<close>

definition NETWORKS :: "(string \<times> string) list" where
  "NETWORKS = [(''hostonly'', ''vmnet1''), (''nat'', ''vmnet8'')]"

text \<open>
  What the run reads from outside: the two directories of the command line, the text files by
  path (each a list of lines, as iterating over the open file yields them; a path that is not
  there raises FileNotFoundError), and the list of paths that
  \<open>glob.glob(os.path.join(vm_dir, "*", "*.vmx"))\<close> returns. The clock is a parameter of
  \<open>main\<close>. Logging writes to the standard error stream and is not part of the model.
\<close>

record env =
  prefs_dir :: string
  vm_dir :: string
  files :: "string \<rightharpoonup> string list"
  vmx_paths :: "string list"

text \<open>\<open>os.path.join(a, b)\<close>, \<open>os.path.basename\<close> and the root of \<open>os.path.splitext\<close> of a name
  without directory, on POSIX paths.\<close>

definition path_join :: "string \<Rightarrow> string \<Rightarrow> string" where
  "path_join a b =
     (if startswith b ''/'' then b
      else if a = [] \<or> last a = CHR ''/'' then a @ b
      else a @ ''/'' @ b)"

definition basename :: "string \<Rightarrow> string" where
  "basename p = rev (takeWhile (\<lambda>c. c \<noteq> CHR ''/'') (rev p))"

definition splitext_root :: "string \<Rightarrow> string" where
  "splitext_root p =
     (let after_dot = dropWhile (\<lambda>c. c \<noteq> CHR ''.'') (rev p)
      in if after_dot = [] then p
         else let root = rev (tl after_dot)
              in if \<exists>c \<in> set root. c \<noteq> CHR ''.'' then root else p)"

subsection \<open>The loop over the networks\<close>

text \<open>
  The body of the first loop for one network, returning its updated dictionary. The call of
  \<open>logging.warning\<close> evaluates its arguments first, and one of them is the name \<open>net\<close>, which
  is bound nowhere in the function, the module or the builtins: evaluating it raises NameError.
\<close>

definition network_step :: "env \<Rightarrow> string \<Rightarrow> net_info \<Rightarrow> py_error + net_info" where
  "network_step e vmnet info =
     (case map_of info ''dhcp'' of
        None \<Rightarrow> Inl (KeyError ''dhcp'')
      | Some dhcp \<Rightarrow>
          if dhcp \<noteq> NBool True then Inr info
          else
            (let fname = path_join (path_join (prefs_dir e) vmnet) ''dhcpd.conf'' in
             (case files e fname of
                None \<Rightarrow> Inl (FileNotFoundError fname)
              | Some dconf \<Rightarrow>
                  (case parse_dhcpd_conf dconf of
                     Inl err \<Rightarrow> Inl err
                   | Inr ret \<Rightarrow>
                       (case ret ''subnet'' of
                          None \<Rightarrow> Inl (KeyError ''subnet'')
                        | Some subnet \<Rightarrow>
                            (let dhcp_net = ds_network subnet;
                                 reserved = ds_reserved subnet;
                                 domain = (case ds_domain subnet of
                                             None \<Rightarrow> ''localdomain''
                                           | Some d \<Rightarrow> d);
                                 info1 = AList.update ''domain'' (NStr domain) info
                             in (case map_of info1 ''network'' of
                                   None \<Rightarrow> Inl (KeyError ''network'')
                                 | Some network \<Rightarrow>
                                     if network \<noteq> NNet dhcp_net then Inl (NameError ''net'')
                                     else
                                       (case find_subnet dhcp_net reserved of
                                          Inl err \<Rightarrow> Inl err
                                        | Inr found \<Rightarrow>
                                            Inr (AList.update ''network_fixed''
                                                   (case found of
                                                      None \<Rightarrow> NNone
                                                    | Some s \<Rightarrow> NNet s)
                                                   info1)))))))))"

fun networks_loop :: "env \<Rightarrow> (string \<times> net_info) list \<Rightarrow> py_error + (string \<times> net_info) list" where
  "networks_loop e [] = Inr []"
| "networks_loop e ((vmnet, info) # rest) =
     (case network_step e vmnet info of
        Inl err \<Rightarrow> Inl err
      | Inr info' \<Rightarrow>
          (case networks_loop e rest of
             Inl err \<Rightarrow> Inl err
           | Inr rest' \<Rightarrow> Inr ((vmnet, info') # rest')))"

subsection \<open>The virtual machines\<close>

record virtual_machine =
  vm_path :: string
  vm_info :: "(string \<times> vmx_entry) list"
  vm_hostname :: vmx_entry

definition VirtualMachine :: "env \<Rightarrow> string \<Rightarrow> py_error + virtual_machine" where
  "VirtualMachine e vmx_path =
     (case files e vmx_path of
        None \<Rightarrow> Inl (FileNotFoundError vmx_path)
      | Some vmx \<Rightarrow>
          (case parse_vmx True vmx of
             Inl err \<Rightarrow> Inl err
           | Inr info \<Rightarrow>
               Inr \<lparr>vm_path = vmx_path, vm_info = info,
                    vm_hostname =
                      (case map_of info ''displayName'' of
                         Some name \<Rightarrow> name
                       | None \<Rightarrow> Scalar (VStr (splitext_root (basename vmx_path))))\<rparr>))"

fun load_vms :: "env \<Rightarrow> string list \<Rightarrow> py_error + virtual_machine list" where
  "load_vms e [] = Inr []"
| "load_vms e (fname # rest) =
     (case VirtualMachine e fname of
        Inl err \<Rightarrow> Inl err
      | Inr vm \<Rightarrow>
          (case load_vms e rest of Inl err \<Rightarrow> Inl err | Inr vms \<Rightarrow> Inr (vm # vms)))"

text \<open>
  \<open>sorted(vms, key=lambda x: x.hostname)\<close>. Strings compare with strings and integers (booleans
  among them) with integers; every other comparison of two host names raises TypeError, and a
  sort of two or more elements compares each of them with another one. No comparison is made
  for fewer than two elements. The sort is stable, as \<open>sort_key\<close> is.
\<close>

definition hostname_is_str :: "vmx_entry \<Rightarrow> bool" where
  "hostname_is_str h = (case h of Scalar (VStr s) \<Rightarrow> True | _ \<Rightarrow> False)"

definition hostname_str :: "vmx_entry \<Rightarrow> string" where
  "hostname_str h = (case h of Scalar (VStr s) \<Rightarrow> s | _ \<Rightarrow> [])"

definition hostname_is_int :: "vmx_entry \<Rightarrow> bool" where
  "hostname_is_int h = (case h of Scalar (VInt i) \<Rightarrow> True | Scalar (VBool b) \<Rightarrow> True | _ \<Rightarrow> False)"

definition hostname_int :: "vmx_entry \<Rightarrow> int" where
  "hostname_int h =
     (case h of Scalar (VInt i) \<Rightarrow> i | Scalar (VBool b) \<Rightarrow> (if b then 1 else 0) | _ \<Rightarrow> 0)"

definition sorted_vms :: "virtual_machine list \<Rightarrow> py_error + virtual_machine list" where
  "sorted_vms vms =
     (if length vms \<le> 1 then Inr vms
      else if \<forall>vm \<in> set vms. hostname_is_str (vm_hostname vm)
        then Inr (sort_key (\<lambda>vm. hostname_str (vm_hostname vm)) vms)
      else if \<forall>vm \<in> set vms. hostname_is_int (vm_hostname vm)
        then Inr (sort_key (\<lambda>vm. hostname_int (vm_hostname vm)) vms)
      else Inl TypeError)"

subsection \<open>Addresses and host blocks\<close>

text \<open>\<open>network[n]\<close> for \<open>n \<ge> 0\<close> (the index is a length).\<close>

definition getitem :: "ip_network \<Rightarrow> nat \<Rightarrow> py_error + ip_address" where
  "getitem self n =
     (let network = network_address self;
          broadcast = broadcast_address self
      in if network + n > broadcast then Inl IndexError
         else IPAddress (net_version self) (network + n))"

text \<open>\<open>str(address)\<close>: dotted decimal notation for IPv4; IPv6 text is not modelled.\<close>

definition join :: "string \<Rightarrow> string list \<Rightarrow> string" where
  "join sep xs = (case xs of [] \<Rightarrow> [] | x # rest \<Rightarrow> x @ concat (map (\<lambda>y. sep @ y) rest))"

definition str_of_address :: "ip_address \<Rightarrow> py_error + string" where
  "str_of_address a =
     (case addr_version a of
        IPv4 \<Rightarrow>
          Inr (join ''.'' (map str_of_nat
                 [addr_ip a div 16777216 mod 256, addr_ip a div 65536 mod 256,
                  addr_ip a div 256 mod 256, addr_ip a mod 256]))
      | IPv6 \<Rightarrow> Inl Unmodelled)"

text \<open>
  \<open>networks[vmnet]["network_fixed"][n]\<close>, as the text that the template shows for it. The
  value under \<open>network_fixed\<close> is the result of \<open>find_subnet\<close> for a DHCP network; for a
  network that the first loop skipped it is whatever the networking file gave under that key,
  or missing.
\<close>

definition fixed_ip_at :: "(string \<times> net_info) list \<Rightarrow> string \<Rightarrow> nat \<Rightarrow> py_error + string" where
  "fixed_ip_at networks vmnet n =
     (case map_of networks vmnet of
        None \<Rightarrow> Inl (KeyError vmnet)
      | Some info \<Rightarrow>
          (case map_of info ''network_fixed'' of
             None \<Rightarrow> Inl (KeyError ''network_fixed'')
           | Some (NNet block) \<Rightarrow>
               (case getitem block n of Inl err \<Rightarrow> Inl err | Inr a \<Rightarrow> str_of_address a)
           | Some NNone \<Rightarrow> Inl TypeError
           | Some (NBool b) \<Rightarrow> Inl TypeError
           | Some (NStr s) \<Rightarrow> if n < length s then Inr [s ! n] else Inl IndexError))"

text \<open>\<open>str(hostname)\<close> in the template; the text of a dictionary or a UUID is not modelled.\<close>

definition str_of_hostname :: "vmx_entry \<Rightarrow> py_error + string" where
  "str_of_hostname h =
     (case h of
        Scalar (VStr s) \<Rightarrow> Inr s
      | Scalar (VInt i) \<Rightarrow> Inr (str_of_int i)
      | Scalar (VBool b) \<Rightarrow> Inr (if b then ''True'' else ''False'')
      | _ \<Rightarrow> Inl Unmodelled)"

text \<open>\<open>VirtualMachine.dhcpd_static_block\<close> with \<open>TEMPLATE_DHCPD_HOST\<close>; \<open>extra\<close> has string
  values and is shown sorted by key.\<close>

definition dhcpd_static_block ::
  "virtual_machine \<Rightarrow> string \<Rightarrow> string \<Rightarrow> (string \<times> string) list \<Rightarrow> py_error + string" where
  "dhcpd_static_block vm ip mac extra =
     (case str_of_hostname (vm_hostname vm) of
        Inl err \<Rightarrow> Inl err
      | Inr host \<Rightarrow>
          (let extra_text = join '' '' (map (\<lambda>(k, v). k @ ''='' @ v) (sort_key fst extra))
           in Inr (''# '' @ host @ '' '' @ extra_text @ [CHR 0x0A] @
                   ''host '' @ host @ '' {'' @ [CHR 0x0A] @
                   ''    hardware ethernet '' @ mac @ '';'' @ [CHR 0x0A] @
                   ''    fixed-address '' @ ip @ '';'' @ [CHR 0x0A] @
                   ''}'' @ [CHR 0x0A])))"

subsection \<open>The loop over the interfaces of the virtual machines\<close>

text \<open>\<open>dhcp_confs\<close> is a \<open>defaultdict(list)\<close>.\<close>

definition confs_of :: "(string \<times> string list) list \<Rightarrow> string \<Rightarrow> string list" where
  "confs_of dhcp_confs vmnet = (case map_of dhcp_confs vmnet of None \<Rightarrow> [] | Some l \<Rightarrow> l)"

text \<open>\<open>conn_type in NETWORKS\<close> for the result of \<open>info.get("connectionType")\<close>, with the network
  it names.\<close>

definition known_connection :: "vmx_value option \<Rightarrow> (string \<times> string) option" where
  "known_connection conn_type =
     (case conn_type of
        Some (VStr c) \<Rightarrow> map_option (\<lambda>vmnet. (c, vmnet)) (map_of NETWORKS c)
      | _ \<Rightarrow> None)"

definition interface_step ::
  "(string \<times> net_info) list \<Rightarrow> virtual_machine \<Rightarrow> string \<Rightarrow> vmx_entry
     \<Rightarrow> (string \<times> string list) list \<Rightarrow> py_error + (string \<times> string list) list" where
  "interface_step networks vm sec entry dhcp_confs =
     (if \<not> startswith sec ''ethernet'' then Inr dhcp_confs
      else
        (case entry of
           Scalar v \<Rightarrow> Inl AttributeError
         | Section info \<Rightarrow>
             (case known_connection (map_of info ''connectionType'') of
                None \<Rightarrow> Inr dhcp_confs
              | Some (conn_type, vmnet) \<Rightarrow>
                  (case map_of info ''generatedAddress'' of
                     None \<Rightarrow> Inl (KeyError ''generatedAddress'')
                   | Some (VStr generated) \<Rightarrow>
                       (case fixed_ip_at networks vmnet (length (confs_of dhcp_confs vmnet)) of
                          Inl err \<Rightarrow> Inl err
                        | Inr fixed_ip \<Rightarrow>
                            (case dhcpd_static_block vm fixed_ip (lower generated)
                                    [(''conn'', conn_type), (''net'', vmnet), (''dev'', sec)] of
                               Inl err \<Rightarrow> Inl err
                             | Inr block \<Rightarrow>
                                 Inr (AList.update vmnet (confs_of dhcp_confs vmnet @ [block])
                                        dhcp_confs)))
                   | Some other \<Rightarrow> Inl AttributeError))))"

fun interfaces_loop ::
  "(string \<times> net_info) list \<Rightarrow> virtual_machine \<Rightarrow> (string \<times> vmx_entry) list
     \<Rightarrow> (string \<times> string list) list \<Rightarrow> py_error + (string \<times> string list) list" where
  "interfaces_loop networks vm [] dhcp_confs = Inr dhcp_confs"
| "interfaces_loop networks vm ((sec, entry) # rest) dhcp_confs =
     (case interface_step networks vm sec entry dhcp_confs of
        Inl err \<Rightarrow> Inl err
      | Inr dhcp_confs' \<Rightarrow> interfaces_loop networks vm rest dhcp_confs')"

text \<open>\<open>sorted(vm.info.items())\<close>: the keys are distinct strings, so the pairs are ordered by
  their keys alone.\<close>

fun vms_loop ::
  "(string \<times> net_info) list \<Rightarrow> virtual_machine list \<Rightarrow> (string \<times> string list) list
     \<Rightarrow> py_error + (string \<times> string list) list" where
  "vms_loop networks [] dhcp_confs = Inr dhcp_confs"
| "vms_loop networks (vm # rest) dhcp_confs =
     (case interfaces_loop networks vm (sort_key fst (vm_info vm)) dhcp_confs of
        Inl err \<Rightarrow> Inl err
      | Inr dhcp_confs' \<Rightarrow> vms_loop networks rest dhcp_confs')"

subsection \<open>Printing\<close>

text \<open>Everything the final loop prints, in one string; \<open>print\<close> ends each text with a newline.\<close>

definition header :: "string \<Rightarrow> string \<Rightarrow> string" where
  "header now vmnet = ''## '' @ now @ '' '' @ vmnet @ '' fixed-address configs ##'' @ [CHR 0x0A]"

definition print_group :: "string \<Rightarrow> string \<times> string list \<Rightarrow> string" where
  "print_group now grp =
     header now (fst grp) @ [CHR 0x0A] @ concat (map (\<lambda>item. item @ [CHR 0x0A]) (snd grp))"

definition print_confs :: "string \<Rightarrow> (string \<times> string list) list \<Rightarrow> string" where
  "print_confs now dhcp_confs = concat (map (print_group now) (sort_key fst dhcp_confs))"

text \<open>
  Everything of \<open>main\<close> before the clock is read: the groups of host blocks, or the exception
  that ends the run.
\<close>

definition main_confs :: "env \<Rightarrow> py_error + (string \<times> string list) list" where
  "main_confs e =
     (let fname = path_join (prefs_dir e) ''networking'' in
      (case files e fname of
         None \<Rightarrow> Inl (FileNotFoundError fname)
       | Some nconf \<Rightarrow>
           (case parse_networking nconf of
              Inl err \<Rightarrow> Inl err
            | Inr parsed \<Rightarrow>
                (case networks_loop e parsed of
                   Inl err \<Rightarrow> Inl err
                 | Inr networks \<Rightarrow>
                     (case load_vms e (vmx_paths e) of
                        Inl err \<Rightarrow> Inl err
                      | Inr vms \<Rightarrow>
                          (case sorted_vms vms of
                             Inl err \<Rightarrow> Inl err
                           | Inr ordered \<Rightarrow> vms_loop networks ordered []))))))"

text \<open>\<open>main\<close>: what the run prints when the clock reads \<open>now\<close> (the text of
  \<open>datetime.now().isoformat(timespec="seconds")\<close>), or the exception that ends it.\<close>

definition main :: "string \<Rightarrow> env \<Rightarrow> py_error + string" where
  "main now e =
     (case main_confs e of
        Inl err \<Rightarrow> Inl err
      | Inr dhcp_confs \<Rightarrow> Inr (print_confs now dhcp_confs))"

text \<open>
  The lines of a text file, each ending in a newline, as iterating over the open file yields
  them.
\<close>

definition with_newlines :: "string list \<Rightarrow> string list" where
  "with_newlines ls = map (\<lambda>l. l @ [CHR 0x0A]) ls"

text \<open>
  A networking file with one DHCP network, its lease configuration, and the descriptors of two
  virtual machines, each with one interface on the nat network. The glob lists the machine
  named beta first.
\<close>

definition example_networking :: "string list" where
  "example_networking = with_newlines
     [''VERSION=1,0'',
      ''answer VNET_8_DHCP yes'',
      ''answer VNET_8_HOSTONLY_NETMASK 255.255.255.0'',
      ''answer VNET_8_HOSTONLY_SUBNET 192.168.1.0'',
      ''answer VNET_8_NAT yes'']"

definition example_dhcpd_conf :: "string list" where
  "example_dhcpd_conf = with_newlines
     [''# Configuration file for ISC 2.0 vmnet-dhcpd operating on vmnet8.'',
      ''subnet 192.168.1.0 netmask 255.255.255.0 {'',
      ''    range 192.168.1.128 192.168.1.254;'',
      ''    option broadcast-address 192.168.1.255;'',
      ''    option domain-name-servers 192.168.1.2;'',
      ''    option domain-name localdomain;'',
      ''    default-lease-time 1800;'',
      ''    option routers 192.168.1.2;'',
      ''}'']"

definition example_vmx_alpha :: "string list" where
  \<open>example_vmx_alpha = with_newlines
     [''.encoding = "UTF-8"'',
      ''displayName = "alpha"'',
      ''memsize = "2048"'',
      ''ethernet0.present = "TRUE"'',
      ''ethernet0.connectionType = "nat"'',
      ''ethernet0.generatedAddress = "00:0C:29:AA:BB:01"'']\<close>

definition example_vmx_beta :: "string list" where
  \<open>example_vmx_beta = with_newlines
     [''displayName = "beta"'',
      ''ethernet0.connectionType = "nat"'',
      ''ethernet0.generatedAddress = "00:0C:29:AA:BB:02"'']\<close>

definition example_env :: env where
  "example_env =
     \<lparr>prefs_dir = ''/prefs'', vm_dir = ''/vms'',
      files = [''/prefs/networking'' \<mapsto> example_networking,
               ''/prefs/vmnet8/dhcpd.conf'' \<mapsto> example_dhcpd_conf,
               ''/vms/a.vmwarevm/a.vmx'' \<mapsto> example_vmx_alpha,
               ''/vms/b.vmwarevm/b.vmx'' \<mapsto> example_vmx_beta],
      vmx_paths = [''/vms/b.vmwarevm/b.vmx'', ''/vms/a.vmwarevm/a.vmx'']\<rparr>"

text \<open>What the run computes from these files: the networks after the first loop, the two
  machines, and the two host blocks.\<close>

definition example_networks :: "(string \<times> net_info) list" where
  "example_networks =
     [(''vmnet8'', [(''dhcp'', NBool True),
        (''hostonly_netmask'', NStr ''255.255.255.0''), (''hostonly_subnet'', NStr ''192.168.1.0''),
        (''nat'', NBool True),
        (''network'', NNet \<lparr>net_version = IPv4, network_address = 3232235776, prefixlen = 24\<rparr>),
        (''domain'', NStr ''localdomain''),
        (''network_fixed'',
           NNet \<lparr>net_version = IPv4, network_address = 3232235840, prefixlen = 26\<rparr>)])]"

definition example_alpha :: virtual_machine where
  "example_alpha =
     \<lparr>vm_path = ''/vms/a.vmwarevm/a.vmx'',
      vm_info = [([], Section [(''encoding'', VStr ''UTF-8'')]),
                 (''displayName'', Scalar (VStr ''alpha'')),
                 (''memsize'', Scalar (VInt 2048)),
                 (''ethernet0'', Section [(''present'', VBool True),
                    (''connectionType'', VStr ''nat''),
                    (''generatedAddress'', VStr ''00:0C:29:AA:BB:01'')])],
      vm_hostname = Scalar (VStr ''alpha'')\<rparr>"

definition example_beta :: virtual_machine where
  "example_beta =
     \<lparr>vm_path = ''/vms/b.vmwarevm/b.vmx'',
      vm_info = [(''displayName'', Scalar (VStr ''beta'')),
                 (''ethernet0'', Section [(''connectionType'', VStr ''nat''),
                    (''generatedAddress'', VStr ''00:0C:29:AA:BB:02'')])],
      vm_hostname = Scalar (VStr ''beta'')\<rparr>"

definition example_block_alpha :: string where
  "example_block_alpha =
     ''# alpha conn=nat dev=ethernet0 net=vmnet8'' @ [CHR 0x0A] @
     ''host alpha {'' @ [CHR 0x0A] @
     ''    hardware ethernet 00:0c:29:aa:bb:01;'' @ [CHR 0x0A] @
     ''    fixed-address 192.168.1.64;'' @ [CHR 0x0A] @
     ''}'' @ [CHR 0x0A]"

definition example_block_beta :: string where
  "example_block_beta =
     ''# beta conn=nat dev=ethernet0 net=vmnet8'' @ [CHR 0x0A] @
     ''host beta {'' @ [CHR 0x0A] @
     ''    hardware ethernet 00:0c:29:aa:bb:02;'' @ [CHR 0x0A] @
     ''    fixed-address 192.168.1.65;'' @ [CHR 0x0A] @
     ''}'' @ [CHR 0x0A]"

section \<open>The qualifying interfaces in processing order\<close>

text \<open>
  What the specification calls a qualifying interface: an entry of a machine's descriptor whose
  name starts with \<open>ethernet\<close>, that is a section, whose connection type names a known host
  network and that has a hardware address (a string). The loop visits the machines in the
  order given and the entries of each machine in ascending order of their names.
\<close>

record interface =
  if_vm :: virtual_machine
  if_section :: string
  if_conn :: string
  if_vmnet :: string
  if_mac :: string

definition interface_of :: "virtual_machine \<Rightarrow> string \<times> vmx_entry \<Rightarrow> interface list" where
  "interface_of vm entry =
     (if \<not> startswith (fst entry) ''ethernet'' then []
      else
        (case snd entry of
           Scalar v \<Rightarrow> []
         | Section info \<Rightarrow>
             (case known_connection (map_of info ''connectionType'') of
                None \<Rightarrow> []
              | Some (conn_type, vmnet) \<Rightarrow>
                  (case map_of info ''generatedAddress'' of
                     Some (VStr generated) \<Rightarrow>
                       [\<lparr>if_vm = vm, if_section = fst entry, if_conn = conn_type,
                         if_vmnet = vmnet, if_mac = generated\<rparr>]
                   | _ \<Rightarrow> []))))"

definition interfaces_of :: "virtual_machine \<Rightarrow> interface list" where
  "interfaces_of vm = concat (map (interface_of vm) (sort_key fst (vm_info vm)))"

definition all_interfaces :: "virtual_machine list \<Rightarrow> interface list" where
  "all_interfaces vms = concat (map interfaces_of vms)"

text \<open>
  The host block of interface \<open>q\<close> when it is the \<open>i\<close>-th one of its network: the template
  filled with the address at offset \<open>i\<close> of the network's free block.
\<close>

definition host_block_at :: "ip_network \<Rightarrow> nat \<times> interface \<Rightarrow> string \<Rightarrow> bool" where
  "host_block_at block iq blk =
     (\<exists>ip. str_of_address \<lparr>addr_version = net_version block,
                            addr_ip = network_address block + fst iq\<rparr> = Inr ip \<and>
           dhcpd_static_block (if_vm (snd iq)) ip (lower (if_mac (snd iq)))
             [(''conn'', if_conn (snd iq)), (''net'', if_vmnet (snd iq)),
              (''dev'', if_section (snd iq))] = Inr blk)"

text \<open>
  The host block the loop appends for interface \<open>q\<close> when \<open>i\<close> blocks of its network are there
  already: the index expression yields an address text and the template is filled with it.
\<close>

definition assigned_at :: "(string \<times> net_info) list \<Rightarrow> nat \<times> interface \<Rightarrow> string \<Rightarrow> bool" where
  "assigned_at networks iq blk =
     (\<exists>ip. fixed_ip_at networks (if_vmnet (snd iq)) (fst iq) = Inr ip \<and>
           dhcpd_static_block (if_vm (snd iq)) ip (lower (if_mac (snd iq)))
             [(''conn'', if_conn (snd iq)), (''net'', if_vmnet (snd iq)),
              (''dev'', if_section (snd iq))] = Inr blk)"

text \<open>
  A networking file whose only network has no \<open>DHCP\<close> answer line.
\<close>

definition example_env_no_dhcp :: env where
  "example_env_no_dhcp =
     \<lparr>prefs_dir = ''/prefs'', vm_dir = ''/vms'',
      files = [''/prefs/networking'' \<mapsto> with_newlines
                 [''answer VNET_1_HOSTONLY_NETMASK 255.255.255.0'',
                  ''answer VNET_1_HOSTONLY_SUBNET 172.16.7.0'',
                  ''answer VNET_1_VIRTUAL_ADAPTER yes'']],
      vmx_paths = []\<rparr>"

text \<open>
  The example run with a lease configuration that declares 192.168.2.0/24 where the networking
  file declares 192.168.1.0/24.
\<close>

definition example_env_mismatch :: env where
  "example_env_mismatch =
     example_env\<lparr>files := (files example_env)(''/prefs/vmnet8/dhcpd.conf'' \<mapsto> with_newlines
        [''subnet 192.168.2.0 netmask 255.255.255.0 {'',
         ''    range 192.168.2.128 192.168.2.254;'',
         ''}''])\<rparr>"

section \<open>Properties of the network arithmetic\<close>

lemma ALL_ONES_mask: "ALL_ONES v = mask (max_prefixlen v)"
  by (simp add: ALL_ONES_def mask_eq_exp_minus_1)

lemma ip_int_from_prefix_eq:
  "ip_int_from_prefix v p = mask (max_prefixlen v) XOR mask (max_prefixlen v - p)"
  by (simp add: ip_int_from_prefix_def ALL_ONES_mask drop_bit_mask_eq)

lemma hostmask_eq: "hostmask n = mask (max_prefixlen (net_version n) - prefixlen n)"
  by (auto simp add: hostmask_def netmask_def ip_int_from_prefix_eq ALL_ONES_mask bit_eq_iff bit_simps)

lemma bit_lt_exp: 
  assumes "(x::nat) < 2 ^ b" "bit x i" shows "i < b"
proof -
  have "take_bit b x = x" using assms(1) by (simp add: take_bit_nat_eq_self)
  then have "bit (take_bit b x) i" using assms(2) by simp
  then show ?thesis by (simp add: bit_take_bit_iff)
qed

lemma and_netmask:
  assumes "(x::nat) < 2 ^ b"
  shows "x AND (mask b XOR mask h) = 2 ^ h * (x div 2 ^ h)"
proof -
  have "x AND (mask b XOR mask h) = push_bit h (drop_bit h x)"
    using bit_lt_exp[OF assms] by (auto simp add: bit_eq_iff bit_simps)
  then show ?thesis by (simp add: push_bit_eq_mult drop_bit_eq_div)
qed

lemma le_ALL_ONES_iff: "a \<le> ALL_ONES v \<longleftrightarrow> a < 2 ^ max_prefixlen v"
proof -
  have "(0::nat) < 2 ^ max_prefixlen v" by simp
  then show ?thesis unfolding ALL_ONES_def by arith
qed

lemma netmask_and_eq_iff:
  assumes "x < 2 ^ b" "2 ^ h dvd (a::nat)"
  shows "x AND (mask b XOR mask h) = a \<longleftrightarrow> a \<le> x \<and> x < a + 2 ^ h"
proof -
  define d :: nat where "d = 2 ^ h"
  have d: "0 < d" by (simp add: d_def)
  obtain k where k: "a = d * k" using assms(2) by (auto simp: d_def)
  have split: "x = d * (x div d) + x mod d" by simp
  have md: "x mod d < d" using d by simp
  have eq: "x AND (mask b XOR mask h) = d * (x div d)"
    using and_netmask[OF assms(1)] by (simp add: d_def)
  show ?thesis
  proof
    assume "x AND (mask b XOR mask h) = a"
    then have "d * (x div d) = a" using eq by simp
    then show "a \<le> x \<and> x < a + 2 ^ h" using split md unfolding d_def[symmetric] by linarith
  next
    assume "a \<le> x \<and> x < a + 2 ^ h"
    then have "d * k \<le> x" "x < d * Suc k" using k by (simp_all add: d_def)
    then have "x div d = k" by (rule div_nat_eqI)
    then show "x AND (mask b XOR mask h) = a" using eq k by simp
  qed
qed

lemma valid_network_iff:
  "valid_network n \<longleftrightarrow>
     network_address n < 2 ^ max_prefixlen (net_version n) \<and>
     prefixlen n \<le> max_prefixlen (net_version n) \<and>
     2 ^ (max_prefixlen (net_version n) - prefixlen n) dvd network_address n"
proof (cases "network_address n < 2 ^ max_prefixlen (net_version n)")
  case True
  have "network_address n AND (mask (max_prefixlen (net_version n)) XOR mask (max_prefixlen (net_version n) - prefixlen n)) = network_address n
     \<longleftrightarrow> 2 ^ (max_prefixlen (net_version n) - prefixlen n) dvd network_address n"
    by (simp add: and_netmask[OF True] dvd_div_eq_mult mult.commute)
       (metis dvd_triv_left dvd_mult_div_cancel)
  then show ?thesis using True
    by (auto simp add: valid_network_def IPNetwork_def ip_int_from_prefix_eq le_ALL_ONES_iff not_less)
next
  case False
  then show ?thesis
    by (auto simp add: valid_network_def IPNetwork_def le_ALL_ONES_iff not_less not_le)
qed

lemma broadcast_eq:
  assumes "valid_network n"
  shows "broadcast_address n = network_address n + 2 ^ (max_prefixlen (net_version n) - prefixlen n) - 1"
proof -
  let ?h = "max_prefixlen (net_version n) - prefixlen n"
  have dv: "2 ^ ?h dvd network_address n" using assms by (simp add: valid_network_iff)
  have "network_address n AND mask ?h = 0"
    using dv by (simp add: take_bit_eq_mask[symmetric] take_bit_eq_mod)
  then have "network_address n + mask ?h = network_address n OR mask ?h"
    by (rule disjunctive_add_eq_or)
  then show ?thesis
    by (simp add: broadcast_address_def hostmask_eq mask_eq_exp_minus_1)
qed

lemma contains_iff:
  assumes "valid_network n" "addr_ip a < 2 ^ max_prefixlen (net_version n)"
  shows "contains n a \<longleftrightarrow> addr_version a = net_version n \<and> network_address n \<le> addr_ip a \<and> addr_ip a \<le> broadcast_address n"
proof -
  let ?h = "max_prefixlen (net_version n) - prefixlen n"
  have dv: "2 ^ ?h dvd network_address n" using assms by (simp add: valid_network_iff)
  have "(0::nat) < 2 ^ ?h" by simp
  then have "addr_ip a \<le> broadcast_address n \<longleftrightarrow> addr_ip a < network_address n + 2 ^ ?h"
    unfolding broadcast_eq[OF assms(1)] by arith
  then show ?thesis
    using netmask_and_eq_iff[OF assms(2) dv]
    by (auto simp add: contains_def netmask_def ip_int_from_prefix_eq)
qed

lemma py_range_set:
  "0 < step \<Longrightarrow> x \<in> set (py_range start stop step) \<longleftrightarrow> start \<le> x \<and> x < stop \<and> step dvd (x - start)"
proof (induction start stop step rule: py_range.induct)
  case (1 start stop step)
  show ?case
  proof (cases "stop \<le> start")
    case True
    then show ?thesis by (simp add: py_range.simps[of start stop step])
  next
    case False
    have ih: "x \<in> set (py_range (start + step) stop step) \<longleftrightarrow>
              start + step \<le> x \<and> x < stop \<and> step dvd (x - (start + step))"
      using "1.IH" "1.prems" False by simp
    have key: "start \<le> x \<and> step dvd (x - start) \<longleftrightarrow>
               x = start \<or> (start + step \<le> x \<and> step dvd (x - (start + step)))"
    proof
      assume a: "start \<le> x \<and> step dvd (x - start)"
      then obtain j where j: "x - start = step * j" by auto
      show "x = start \<or> (start + step \<le> x \<and> step dvd (x - (start + step)))"
      proof (cases j)
        case 0
        then show ?thesis using a j by simp
      next
        case (Suc j')
        then have "x - start = step + step * j'" using j by simp
        then have "start + step \<le> x" "x - (start + step) = step * j'"
          using "1.prems" by linarith+
        then show ?thesis by simp
      qed
    next
      assume "x = start \<or> (start + step \<le> x \<and> step dvd (x - (start + step)))"
      then show "start \<le> x \<and> step dvd (x - start)"
      proof
        assume "x = start" then show ?thesis by simp
      next
        assume b: "start + step \<le> x \<and> step dvd (x - (start + step))"
        then have "x - start = (x - (start + step)) + step" by simp
        then show ?thesis using b by (metis dvd_add_triv_right_iff le_add1 le_trans)
      qed
    qed
    show ?thesis
      using False "1.prems" ih key by (auto simp add: py_range.simps[of start stop step])
  qed
qed

lemma py_range_sorted:
  "0 < step \<Longrightarrow> sorted_wrt (<) (py_range start stop step)"
proof (induction start stop step rule: py_range.induct)
  case (1 start stop step)
  show ?case
  proof (cases "stop \<le> start")
    case True
    then show ?thesis by (simp add: py_range.simps[of start stop step])
  next
    case False
    have "\<forall>y \<in> set (py_range (start + step) stop step). start < y"
      using "1.prems" by (auto simp add: py_range_set)
    then show ?thesis
      using False "1.prems" "1.IH" by (simp add: py_range.simps[of start stop step])
  qed
qed

lemma IPNetwork_Inr:
  assumes "x < 2 ^ max_prefixlen v" "q \<le> max_prefixlen v" "2 ^ (max_prefixlen v - q) dvd x"
  shows "IPNetwork v x q = Inr \<lparr>net_version = v, network_address = x, prefixlen = q\<rparr>"
proof -
  have "valid_network \<lparr>net_version = v, network_address = x, prefixlen = q\<rparr>"
    using assms by (simp add: valid_network_iff)
  then show ?thesis by (simp add: valid_network_def)
qed

lemma valid_network_top:
  assumes "valid_network n"
  shows "network_address n + 2 ^ (max_prefixlen (net_version n) - prefixlen n)
           \<le> 2 ^ max_prefixlen (net_version n)"
proof -
  let ?b = "max_prefixlen (net_version n)" and ?p = "prefixlen n"
  have p: "?p \<le> ?b" and lt: "network_address n < 2 ^ ?b"
    and dv: "2 ^ (?b - ?p) dvd network_address n"
    using assms by (simp_all add: valid_network_iff)
  obtain k where k: "network_address n = 2 ^ (?b - ?p) * k" using dv by auto
  have pw: "(2::nat) ^ ?b = 2 ^ (?b - ?p) * 2 ^ ?p"
    using p by (simp add: power_add[symmetric])
  have "k < 2 ^ ?p" using lt k pw by simp
  then have "Suc k \<le> 2 ^ ?p" by simp
  then have "2 ^ (?b - ?p) * Suc k \<le> 2 ^ (?b - ?p) * 2 ^ ?p" by (rule mult_le_mono2)
  then show ?thesis using k pw by simp
qed

lemma subnets_step:
  assumes "p \<le> q" "q \<le> (b::nat)"
  shows "drop_bit (q - p) (mask (b - p) + 1 :: nat) = 2 ^ (b - q)"
proof -
  have "(mask (b - p) + 1 :: nat) = 2 ^ (b - p)" by (simp add: mask_eq_exp_minus_1)
  moreover have "(2::nat) ^ (b - p) = 2 ^ (b - q) * 2 ^ (q - p)"
    using assms by (simp add: power_add[symmetric])
  ultimately show ?thesis by (simp add: drop_bit_eq_div)
qed

lemma subnet_address_props:
  assumes "valid_network n" "prefixlen n < q" "q \<le> max_prefixlen (net_version n)"
    and "x \<in> set (py_range (network_address n)
                     (network_address n + 2 ^ (max_prefixlen (net_version n) - prefixlen n))
                     (2 ^ (max_prefixlen (net_version n) - q)))"
  shows "x < 2 ^ max_prefixlen (net_version n)"
    and "2 ^ (max_prefixlen (net_version n) - q) dvd x"
    and "network_address n \<le> x"
    and "x + 2 ^ (max_prefixlen (net_version n) - q)
           \<le> network_address n + 2 ^ (max_prefixlen (net_version n) - prefixlen n)"
proof -
  let ?b = "max_prefixlen (net_version n)" and ?p = "prefixlen n" and ?a = "network_address n"
  have dv: "2 ^ (?b - ?p) dvd ?a" using assms(1) by (simp add: valid_network_iff)
  have x: "?a \<le> x" "x < ?a + 2 ^ (?b - ?p)" "2 ^ (?b - q) dvd (x - ?a)"
    using assms(4) by (simp_all add: py_range_set)
  show "x < 2 ^ ?b" using x(2) valid_network_top[OF assms(1)] by linarith
  have pw: "(2::nat) ^ (?b - ?p) = 2 ^ (?b - q) * 2 ^ (q - ?p)"
    using assms(2,3) by (simp add: power_add[symmetric])
  then have "(2::nat) ^ (?b - q) dvd 2 ^ (?b - ?p)" by simp
  then have "2 ^ (?b - q) dvd ?a" using dv by (rule dvd_trans)
  then have "2 ^ (?b - q) dvd (x - ?a) + ?a" using x(3) by (rule dvd_add[rotated])
  then show "2 ^ (?b - q) dvd x" using x(1) by simp
  show "?a \<le> x" by (rule x(1))
  obtain j where j: "x - ?a = 2 ^ (?b - q) * j" using x(3) by auto
  have "2 ^ (?b - q) * j < 2 ^ (?b - q) * 2 ^ (q - ?p)" using x(1,2) j pw by linarith
  then have "j < 2 ^ (q - ?p)" by simp
  then have "Suc j \<le> 2 ^ (q - ?p)" by simp
  then have "2 ^ (?b - q) * Suc j \<le> 2 ^ (?b - q) * 2 ^ (q - ?p)" by (rule mult_le_mono2)
  then have "(x - ?a) + 2 ^ (?b - q) \<le> 2 ^ (?b - ?p)" using j pw by simp
  then show "x + 2 ^ (?b - q) \<le> ?a + 2 ^ (?b - ?p)" using x(1) by linarith
qed

lemma subnets_valid:
  assumes "valid_network n" "prefixlen n < q" "q \<le> max_prefixlen (net_version n)"
  shows "subnets n q =
           Inr (map (\<lambda>x. Inr \<lparr>net_version = net_version n, network_address = x, prefixlen = q\<rparr>)
                  (py_range (network_address n)
                     (network_address n + 2 ^ (max_prefixlen (net_version n) - prefixlen n))
                     (2 ^ (max_prefixlen (net_version n) - q))))"
proof -
  let ?b = "max_prefixlen (net_version n)" and ?p = "prefixlen n" and ?a = "network_address n"
  have stop: "broadcast_address n + 1 = ?a + 2 ^ (?b - ?p)"
    by (simp add: broadcast_eq[OF assms(1)])
  have step: "drop_bit (q - ?p) (hostmask n + 1) = 2 ^ (?b - q)"
    using assms subnets_step[of "?p" q "?b"] by (simp add: hostmask_eq)
  have elems: "IPNetwork (net_version n) x q =
                 Inr \<lparr>net_version = net_version n, network_address = x, prefixlen = q\<rparr>"
    if "x \<in> set (py_range ?a (?a + 2 ^ (?b - ?p)) (2 ^ (?b - q)))" for x
    using subnet_address_props[OF assms that] assms(3) by (intro IPNetwork_Inr) simp_all
  have "subnets n q =
        Inr (map (\<lambda>new_addr. IPNetwork (net_version n) new_addr q)
               (py_range ?a (?a + 2 ^ (?b - ?p)) (2 ^ (?b - q))))"
    using assms(2,3) stop step by (simp add: subnets_def Let_def)
  also have "map (\<lambda>new_addr. IPNetwork (net_version n) new_addr q)
               (py_range ?a (?a + 2 ^ (?b - ?p)) (2 ^ (?b - q))) =
             map (\<lambda>x. Inr \<lparr>net_version = net_version n, network_address = x, prefixlen = q\<rparr>)
               (py_range ?a (?a + 2 ^ (?b - ?p)) (2 ^ (?b - q)))"
    using elems by (intro map_cong) simp_all
  finally show ?thesis .
qed

lemma first_free_map_Inr: "first_free R (map Inr cs) = Inr (find (no_overlap R) cs)"
  by (induction cs) simp_all


lemma subnets_members:
  assumes "valid_network n" "prefixlen n < q" "q \<le> max_prefixlen (net_version n)"
  shows "c \<in> (\<lambda>x. \<lparr>net_version = net_version n, network_address = x, prefixlen = q\<rparr>) `
               set (py_range (network_address n)
                     (network_address n + 2 ^ (max_prefixlen (net_version n) - prefixlen n))
                     (2 ^ (max_prefixlen (net_version n) - q)))
         \<longleftrightarrow> valid_network c \<and> prefixlen c = q \<and> subnet_of c n = Inr True"
    (is "c \<in> ?mk ` set ?rng \<longleftrightarrow> ?rhs")
proof
  let ?b = "max_prefixlen (net_version n)" and ?p = "prefixlen n" and ?a = "network_address n"
  assume "c \<in> ?mk ` set ?rng"
  then obtain x where x: "x \<in> set ?rng" and c: "c = ?mk x" by auto
  note props = subnet_address_props[OF assms x]
  have v: "valid_network c" using props(1,2) assms(3) c by (simp add: valid_network_iff)
  have pos: "(0::nat) < 2 ^ (?b - q)" "(0::nat) < 2 ^ (?b - ?p)" by simp_all
  have "broadcast_address c = x + 2 ^ (?b - q) - 1"
    using broadcast_eq[OF v] by (simp add: c)
  then have "broadcast_address c \<le> broadcast_address n"
    using props(4) pos broadcast_eq[OF assms(1)] by linarith
  then show ?rhs using v props(3) c by (simp add: subnet_of_def)
next
  let ?b = "max_prefixlen (net_version n)" and ?p = "prefixlen n" and ?a = "network_address n"
  assume r: ?rhs
  then have v: "valid_network c" and q: "prefixlen c = q" and ver: "net_version c = net_version n"
    and lo: "?a \<le> network_address c" and hi: "broadcast_address c \<le> broadcast_address n"
    by (auto simp add: subnet_of_def split: if_splits)
  have dvc: "2 ^ (?b - q) dvd network_address c" using v q ver by (simp add: valid_network_iff)
  have dv: "2 ^ (?b - ?p) dvd ?a" using assms(1) by (simp add: valid_network_iff)
  have "(2::nat) ^ (?b - ?p) = 2 ^ (?b - q) * 2 ^ (q - ?p)"
    using assms(2,3) by (simp add: power_add[symmetric])
  then have "(2::nat) ^ (?b - q) dvd 2 ^ (?b - ?p)" by simp
  then have "2 ^ (?b - q) dvd ?a" using dv by (rule dvd_trans)
  then have d: "2 ^ (?b - q) dvd (network_address c - ?a)" using dvc by (intro dvd_diff_nat)
  have pos: "(0::nat) < 2 ^ (?b - q)" "(0::nat) < 2 ^ (?b - ?p)" by simp_all
  have "broadcast_address c = network_address c + 2 ^ (?b - q) - 1"
    using broadcast_eq[OF v] by (simp add: q ver)
  then have "network_address c < ?a + 2 ^ (?b - ?p)"
    using hi pos broadcast_eq[OF assms(1)] by linarith
  then have "network_address c \<in> set ?rng" using lo d by (simp add: py_range_set)
  moreover have "c = ?mk (network_address c)" using q ver by simp
  ultimately show "c \<in> ?mk ` set ?rng" by (rule rev_image_eqI)
qed

lemma find_sorted_least:
  assumes "sorted_wrt (\<lambda>a b. f a < (f b :: nat)) xs" "find P xs = Some s" "c \<in> set xs" "P c"
  shows "f s \<le> f c"
  using assms
proof (induction xs)
  case Nil
  then show ?case by simp
next
  case (Cons x xs)
  show ?case
  proof (cases "P x")
    case True
    then have "s = x" using Cons.prems(2) by simp
    then show ?thesis using Cons.prems(1,3) by (auto intro: less_imp_le)
  next
    case False
    then have "find P xs = Some s" "c \<in> set xs" using Cons.prems by auto
    then show ?thesis using Cons.IH Cons.prems(1,4) by simp
  qed
qed

lemma find_Some_mem: "find P xs = Some s \<Longrightarrow> s \<in> set xs \<and> P s"
  by (induction xs) (auto split: if_splits)

lemma find_subnet_loop_spec:
  assumes "valid_network n"
    and "\<forall>q \<in> set qs. prefixlen n < q \<and> q \<le> max_prefixlen (net_version n)"
    and "sorted_wrt (<) qs"
  shows "(\<exists>s. find_subnet_loop n R qs = Inr (Some s) \<and>
              valid_network s \<and> subnet_of s n = Inr True \<and> prefixlen s \<in> set qs \<and>
              no_overlap R s \<and>
              (\<forall>c. valid_network c \<and> subnet_of c n = Inr True \<and> prefixlen c \<in> set qs \<and>
                   no_overlap R c \<longrightarrow>
                   prefixlen s < prefixlen c \<or>
                   (prefixlen s = prefixlen c \<and> network_address s \<le> network_address c)))
         \<or> (find_subnet_loop n R qs = Inr None \<and>
             (\<forall>c. valid_network c \<and> subnet_of c n = Inr True \<and> prefixlen c \<in> set qs \<longrightarrow>
                  \<not> no_overlap R c))"
  using assms(2,3)
proof (induction qs)
  case Nil
  then show ?case by simp
next
  case (Cons q rest)
  let ?mk = "\<lambda>x. \<lparr>net_version = net_version n, network_address = x, prefixlen = q\<rparr>"
  let ?rng = "py_range (network_address n)
                (network_address n + 2 ^ (max_prefixlen (net_version n) - prefixlen n))
                (2 ^ (max_prefixlen (net_version n) - q))"
  let ?cs = "map ?mk ?rng"
  have q: "prefixlen n < q" "q \<le> max_prefixlen (net_version n)" using Cons.prems(1) by simp_all
  have gen: "subnets n q = Inr (map Inr ?cs)"
    using subnets_valid[OF assms(1) q] by (simp add: comp_def)
  have mem: "c \<in> set ?cs \<longleftrightarrow> valid_network c \<and> prefixlen c = q \<and> subnet_of c n = Inr True" for c
    using subnets_members[OF assms(1) q, of c] by simp
  have srt: "sorted_wrt (\<lambda>a b. network_address a < network_address b) ?cs"
    using py_range_sorted[of "2 ^ (max_prefixlen (net_version n) - q)"]
    by (simp add: sorted_wrt_map)
  have ff: "first_free R (map Inr ?cs) = Inr (find (no_overlap R) ?cs)"
    by (rule first_free_map_Inr)
  have later: "\<forall>q' \<in> set rest. q < q'" using Cons.prems(2) by simp
  have ih: "(\<exists>s. find_subnet_loop n R rest = Inr (Some s) \<and>
              valid_network s \<and> subnet_of s n = Inr True \<and> prefixlen s \<in> set rest \<and>
              no_overlap R s \<and>
              (\<forall>c. valid_network c \<and> subnet_of c n = Inr True \<and> prefixlen c \<in> set rest \<and>
                   no_overlap R c \<longrightarrow>
                   prefixlen s < prefixlen c \<or>
                   (prefixlen s = prefixlen c \<and> network_address s \<le> network_address c)))
         \<or> (find_subnet_loop n R rest = Inr None \<and>
             (\<forall>c. valid_network c \<and> subnet_of c n = Inr True \<and> prefixlen c \<in> set rest \<longrightarrow>
                  \<not> no_overlap R c))"
    using Cons.IH Cons.prems by simp
  show ?case
  proof (cases "find (no_overlap R) ?cs")
    case (Some s)
    have res: "find_subnet_loop n R (q # rest) = Inr (Some s)"
      by (simp only: find_subnet_loop.simps gen ff Some sum.case option.case)
    have s: "s \<in> set ?cs" "no_overlap R s" using find_Some_mem[OF Some] by simp_all
    have sp: "valid_network s" "prefixlen s = q" "subnet_of s n = Inr True"
      using s(1) mem by simp_all
    have best: "prefixlen s < prefixlen c \<or>
                (prefixlen s = prefixlen c \<and> network_address s \<le> network_address c)"
      if c: "valid_network c" "subnet_of c n = Inr True" "prefixlen c \<in> set (q # rest)"
            "no_overlap R c" for c
    proof (cases "prefixlen c = q")
      case True
      then have "c \<in> set ?cs" using c mem by simp
      then have "network_address s \<le> network_address c"
        using find_sorted_least[OF srt Some _ c(4)] by simp
      then show ?thesis using True sp(2) by simp
    next
      case False
      then have "prefixlen c \<in> set rest" using c(3) by simp
      then show ?thesis using later sp(2) by simp
    qed
    show ?thesis using res sp s(2) best by simp
  next
    case None
    have res: "find_subnet_loop n R (q # rest) = find_subnet_loop n R rest"
      by (simp only: find_subnet_loop.simps gen ff None sum.case option.case)
    have none: "\<not> no_overlap R c"
      if "valid_network c" "subnet_of c n = Inr True" "prefixlen c = q" for c
    proof -
      have "c \<in> set ?cs" using that mem[of c] by blast
      moreover have "\<not> (\<exists>x. x \<in> set ?cs \<and> no_overlap R x)"
        using None unfolding find_None_iff .
      ultimately show ?thesis by blast
    qed
    from ih show ?thesis
    proof
      assume "\<exists>s. find_subnet_loop n R rest = Inr (Some s) \<and>
              valid_network s \<and> subnet_of s n = Inr True \<and> prefixlen s \<in> set rest \<and>
              no_overlap R s \<and>
              (\<forall>c. valid_network c \<and> subnet_of c n = Inr True \<and> prefixlen c \<in> set rest \<and>
                   no_overlap R c \<longrightarrow>
                   prefixlen s < prefixlen c \<or>
                   (prefixlen s = prefixlen c \<and> network_address s \<le> network_address c))"
      then obtain s where s: "find_subnet_loop n R rest = Inr (Some s)"
              "valid_network s" "subnet_of s n = Inr True" "prefixlen s \<in> set rest"
              "no_overlap R s"
              "\<And>c. valid_network c \<Longrightarrow> subnet_of c n = Inr True \<Longrightarrow> prefixlen c \<in> set rest \<Longrightarrow>
                   no_overlap R c \<Longrightarrow>
                   prefixlen s < prefixlen c \<or>
                   (prefixlen s = prefixlen c \<and> network_address s \<le> network_address c)"
        by blast
      have "prefixlen s < prefixlen c \<or>
                (prefixlen s = prefixlen c \<and> network_address s \<le> network_address c)"
        if c: "valid_network c" "subnet_of c n = Inr True" "prefixlen c \<in> set (q # rest)"
            "no_overlap R c" for c
      proof (cases "prefixlen c = q")
        case True
        then show ?thesis using none c by blast
      next
        case False
        then have "prefixlen c \<in> set rest" using c(3) by simp
        then show ?thesis using s(6) c by blast
      qed
      then show ?thesis using res s(1-5) by auto
    next
      assume a: "find_subnet_loop n R rest = Inr None \<and>
             (\<forall>c. valid_network c \<and> subnet_of c n = Inr True \<and> prefixlen c \<in> set rest \<longrightarrow>
                  \<not> no_overlap R c)"
      have "\<not> no_overlap R c"
        if c: "valid_network c" "subnet_of c n = Inr True" "prefixlen c \<in> set (q # rest)" for c
      proof (cases "prefixlen c = q")
        case True
        then show ?thesis using none c by blast
      next
        case False
        then have "prefixlen c \<in> set rest" using c(3) by simp
        then show ?thesis using a c by blast
      qed
      then show ?thesis using res a by auto
    qed
  qed
qed

text \<open>
  Claim C1. For every (valid) parent network and every set of reserved networks,
  \<open>find_subnet\<close> raises nothing and either returns a candidate (a sub-network of the parent
  with a prefix length between the parent's plus one and the maximum minus two) that overlaps
  no reserved entry and that has, among all such candidates, the smallest prefix length and,
  among those of that prefix length, the lowest network address; or it returns \<open>None\<close> and
  every candidate overlaps some reserved entry.
\<close>

theorem find_subnet_best_or_none:
  assumes "valid_network network"
  shows "(\<exists>s. find_subnet network reserved = Inr (Some s) \<and>
              candidate network s \<and> no_overlap reserved s \<and>
              (\<forall>c. candidate network c \<and> no_overlap reserved c \<longrightarrow>
                   prefixlen s < prefixlen c \<or>
                   (prefixlen s = prefixlen c \<and> network_address s \<le> network_address c)))
         \<or> (find_subnet network reserved = Inr None \<and>
             (\<forall>c. candidate network c \<longrightarrow> \<not> no_overlap reserved c))"
proof -
  let ?qs = "[prefixlen network + 1 ..< max_prefixlen (net_version network) - 1]"
  have rng: "\<forall>q \<in> set ?qs. prefixlen network < q \<and> q \<le> max_prefixlen (net_version network)"
    by auto
  have cand: "candidate network c \<longleftrightarrow>
                valid_network c \<and> subnet_of c network = Inr True \<and> prefixlen c \<in> set ?qs" for c
    by (cases "net_version network") (auto simp add: candidate_def)
  show ?thesis
    using find_subnet_loop_spec[OF assms rng, of reserved]
    unfolding find_subnet_def cand by simp
qed

text \<open>
  Claim C9. For a parent whose prefix length is at least the maximum minus two (for IPv4 a
  /30, /31 or /32), the range of tested prefix lengths is empty and \<open>find_subnet\<close> returns
  \<open>None\<close> whatever the reserved set is, the empty set included.
\<close>

theorem find_subnet_small_parent:
  assumes "max_prefixlen (net_version network) - 2 \<le> prefixlen network"
  shows "find_subnet network reserved = Inr None"
proof -
  have "[prefixlen network + 1 ..< max_prefixlen (net_version network) - 1] = []"
    using assms by (cases "net_version network") simp_all
  then show ?thesis by (simp only: find_subnet_def find_subnet_loop.simps)
qed

lemmas ip_eval = ALL_ONES_def ip_int_from_prefix_def netmask_def hostmask_def broadcast_address_def
  IPNetwork_def IPAddress_def contains_def overlaps_def network_address_of_def
  broadcast_address_of_def subnets_def no_overlap_def find_subnet_def drop_bit_eq_div
  py_range.simps Let_def

text \<open>
  Witness for C1: the parent 192.168.1.0/24 with 192.168.1.128/25 and 192.168.1.2/32 reserved.
  Both /25 halves overlap a reserved entry, so does 192.168.1.0/26, and 192.168.1.64/26 is
  returned.
\<close>

theorem find_subnet_best_or_none_witness:
  "valid_network \<lparr>net_version = IPv4, network_address = 3232235776, prefixlen = 24\<rparr> \<and>
   find_subnet \<lparr>net_version = IPv4, network_address = 3232235776, prefixlen = 24\<rparr>
         {\<lparr>net_version = IPv4, network_address = 3232235904, prefixlen = 25\<rparr>,
          \<lparr>net_version = IPv4, network_address = 3232235778, prefixlen = 32\<rparr>}
      = Inr (Some \<lparr>net_version = IPv4, network_address = 3232235840, prefixlen = 26\<rparr>) \<and>
   candidate \<lparr>net_version = IPv4, network_address = 3232235776, prefixlen = 24\<rparr>
      \<lparr>net_version = IPv4, network_address = 3232235840, prefixlen = 26\<rparr> \<and>
   no_overlap {\<lparr>net_version = IPv4, network_address = 3232235904, prefixlen = 25\<rparr>,
          \<lparr>net_version = IPv4, network_address = 3232235778, prefixlen = 32\<rparr>}
      \<lparr>net_version = IPv4, network_address = 3232235840, prefixlen = 26\<rparr>"
proof -
  let ?N = "\<lparr>net_version = IPv4, network_address = 3232235776, prefixlen = 24\<rparr>"
  let ?R = "{\<lparr>net_version = IPv4, network_address = 3232235904, prefixlen = 25\<rparr>,
          \<lparr>net_version = IPv4, network_address = 3232235778, prefixlen = 32\<rparr>}"
  have v: "valid_network ?N" by (simp add: valid_network_iff)
  have r: "find_subnet ?N ?R =
             Inr (Some \<lparr>net_version = IPv4, network_address = 3232235840, prefixlen = 26\<rparr>)"
    by (simp add: ip_eval)
  show ?thesis using find_subnet_best_or_none[OF v, of ?R] v r by auto
qed

text \<open>Witness for C9: the parent 10.0.0.0/30 with nothing reserved.\<close>

theorem find_subnet_small_parent_witness:
  "max_prefixlen (net_version \<lparr>net_version = IPv4, network_address = 167772160, prefixlen = 30\<rparr>) - 2
     \<le> prefixlen \<lparr>net_version = IPv4, network_address = 167772160, prefixlen = 30\<rparr> \<and>
   find_subnet \<lparr>net_version = IPv4, network_address = 167772160, prefixlen = 30\<rparr> {} = Inr None"
proof -
  have h: "max_prefixlen (net_version \<lparr>net_version = IPv4, network_address = 167772160, prefixlen = 30\<rparr>) - 2
     \<le> prefixlen \<lparr>net_version = IPv4, network_address = 167772160, prefixlen = 30\<rparr>"
    by simp
  show ?thesis using h find_subnet_small_parent[OF h, of "{}"] by simp
qed

lemma bit_length_upper: "0 < m \<Longrightarrow> 2 ^ bit_length m \<le> 2 * m"
proof (induction m rule: bit_length.induct)
  case (1 n)
  show ?case
  proof (cases "n div 2 = 0")
    case True
    then have "n = 1" using "1.prems" by (simp add: div_eq_0_iff) 
    then show ?thesis by (simp add: bit_length.simps[of "Suc 0"] bit_length.simps[of 0])
  next
    case False
    then have "2 ^ bit_length (n div 2) \<le> 2 * (n div 2)" using "1.IH" "1.prems" by simp
    also have "\<dots> \<le> n" by simp
    finally show ?thesis using "1.prems" by (simp add: bit_length.simps[of n])
  qed
qed

lemma bit_length_lower: "0 < n \<Longrightarrow> 2 ^ (bit_length n - 1) \<le> n"
proof -
  assume n: "0 < n"
  have bl: "bit_length n - 1 = bit_length (n div 2)" using n by (simp add: bit_length.simps[of n])
  show ?thesis
  proof (cases "n div 2 = 0")
    case True
    then show ?thesis using n bl by (simp add: bit_length.simps[of 0])
  next
    case False
    then have "2 ^ bit_length (n div 2) \<le> 2 * (n div 2)" by (intro bit_length_upper) simp
    also have "\<dots> \<le> n" by simp
    finally show ?thesis using bl by simp
  qed
qed

lemma tz_mask_even:
  "NOT (2 * k) AND (2 * k - 1) = 1 + 2 * (NOT k AND (k - 1))" for k :: int
proof -
  have "(2 * k - 1) div 2 = k - 1" by linarith
  then show ?thesis
    by (subst and_int_rec) (simp add: not_int_div_2)
qed

lemma tz_mask_odd:
  "NOT (2 * k + 1) AND (2 * k + 1 - 1) = 0" for k :: int
  by (subst and_int_rec) (simp add: not_int_div_2)

lemma tz_dvd: "0 < n \<Longrightarrow> 2 ^ bit_length (nat (NOT (int n) AND (int n - 1))) dvd n"
proof (induction n rule: less_induct)
  case (less n)
  show ?case
  proof (cases "even n")
    case True
    then obtain k where k: "n = 2 * k" by (auto elim: evenE)
    then have kpos: "0 < k" and klt: "k < n" using less.prems by simp_all
    define mk where "mk = nat (NOT (int k) AND (int k - 1))"
    have nonneg: "0 \<le> NOT (int k) AND (int k - 1)" using kpos by simp
    have "NOT (int n) AND (int n - 1) = 1 + 2 * (NOT (int k) AND (int k - 1))"
      using tz_mask_even[of "int k"] k by simp
    then have "nat (NOT (int n) AND (int n - 1)) = 1 + 2 * mk"
      using nonneg by (simp add: mk_def nat_add_distrib nat_mult_distrib)
    then have "bit_length (nat (NOT (int n) AND (int n - 1))) = Suc (bit_length mk)"
      by (simp add: bit_length.simps[of "Suc (2 * mk)"])
    moreover have "2 ^ bit_length mk dvd k" using less.IH[OF klt kpos] by (simp add: mk_def)
    ultimately show ?thesis using k by simp
  next
    case False
    then obtain k where k: "n = 2 * k + 1" by (auto elim: oddE)
    have "NOT (int n) AND (int n - 1) = 0"
      using tz_mask_odd[of "int k"] k by (simp add: add.commute)
    then show ?thesis by (simp add: bit_length.simps[of 0])
  qed
qed

lemma count_righthand_zero_bits_dvd: "2 ^ count_righthand_zero_bits n bits dvd n"
proof (cases "n = 0")
  case True
  then show ?thesis by simp
next
  case False
  then have "2 ^ bit_length (nat (NOT (int n) AND (int n - 1))) dvd n" by (intro tz_dvd) simp
  moreover have "(2::nat) ^ count_righthand_zero_bits n bits
                   dvd 2 ^ bit_length (nat (NOT (int n) AND (int n - 1)))"
    using False by (intro le_imp_power_dvd) (simp add: count_righthand_zero_bits_def)
  ultimately show ?thesis by (rule dvd_trans[rotated])
qed

lemma count_righthand_zero_bits_le: "count_righthand_zero_bits n bits \<le> bits"
  by (simp add: count_righthand_zero_bits_def)

text \<open>The set of integers a valid network spans.\<close>

lemma summarize_loop_covers:
  assumes "last_int < 2 ^ max_prefixlen v"
  shows "\<exists>nets. summarize_loop v first_int last_int = Inr nets \<and>
           (\<forall>n \<in> set nets. valid_network n \<and> net_version n = v) \<and>
           (\<forall>x. (\<exists>n \<in> set nets. network_address n \<le> x \<and> x \<le> broadcast_address n)
                 \<longleftrightarrow> first_int \<le> x \<and> x \<le> last_int)"
proof (induction "Suc last_int - first_int" arbitrary: first_int rule: less_induct)
  case less
  show ?case
  proof (cases "first_int \<le> last_int")
    case False
    then show ?thesis by (simp add: summarize_loop.simps[of v first_int last_int])
  next
    case True
    define nbits where "nbits = min (count_righthand_zero_bits first_int (max_prefixlen v))
                         (bit_length (last_int - first_int + 1) - 1)"
    let ?net = "\<lparr>net_version = v, network_address = first_int,
                   prefixlen = max_prefixlen v - nbits\<rparr>"
    have pos: "(0::nat) < 2 ^ nbits" by simp
    have nb_le: "nbits \<le> max_prefixlen v"
      using count_righthand_zero_bits_le[of first_int "max_prefixlen v"] by (simp add: nbits_def)
    have "(2::nat) ^ nbits dvd 2 ^ count_righthand_zero_bits first_int (max_prefixlen v)"
      by (intro le_imp_power_dvd) (simp add: nbits_def)
    then have dv: "2 ^ nbits dvd first_int"
      using count_righthand_zero_bits_dvd by (rule dvd_trans)
    have "(2::nat) ^ nbits \<le> 2 ^ (bit_length (last_int - first_int + 1) - 1)"
      by (intro power_increasing) (simp_all add: nbits_def)
    also have "\<dots> \<le> last_int - first_int + 1" by (intro bit_length_lower) simp
    finally have fit: "first_int + 2 ^ nbits \<le> Suc last_int" using True by linarith
    have flt: "first_int < 2 ^ max_prefixlen v" using True assms by linarith
    have hb: "max_prefixlen v - (max_prefixlen v - nbits) = nbits" using nb_le by simp
    have vnet: "valid_network ?net" using flt dv by (simp add: valid_network_iff hb)
    have mk: "IPNetwork v first_int (max_prefixlen v - nbits) = Inr ?net"
      using vnet by (simp add: valid_network_def)
    have bc: "broadcast_address ?net = first_int + 2 ^ nbits - 1"
      using broadcast_eq[OF vnet] by (simp add: hb)
    have unfold: "summarize_loop v first_int last_int =
        (case IPNetwork v first_int (max_prefixlen v - nbits) of
              Inl e \<Rightarrow> Inl e
            | Inr net \<Rightarrow>
                if first_int + 2 ^ nbits - 1 = ALL_ONES v then Inr [net]
                else (case summarize_loop v (first_int + 2 ^ nbits) last_int of
                        Inl e \<Rightarrow> Inl e
                      | Inr nets \<Rightarrow> Inr (net # nets)))"
      unfolding nbits_def
      by (subst summarize_loop.simps) (simp only: True if_True Let_def)
    show ?thesis
    proof (cases "first_int + 2 ^ nbits - 1 = ALL_ONES v")
      case stop: True
      have res: "summarize_loop v first_int last_int = Inr [?net]"
        using stop by (simp add: unfold mk)
      have "last_int \<le> ALL_ONES v" using assms by (simp add: le_ALL_ONES_iff)
      then have "last_int = first_int + 2 ^ nbits - 1" using stop fit pos by linarith
      then show ?thesis using res vnet bc by auto
    next
      case cont: False
      have smaller: "Suc last_int - (first_int + 2 ^ nbits) < Suc last_int - first_int"
        using True pos by linarith
      obtain nets where nets: "summarize_loop v (first_int + 2 ^ nbits) last_int = Inr nets"
        "\<forall>n \<in> set nets. valid_network n \<and> net_version n = v"
        "\<forall>x. (\<exists>n \<in> set nets. network_address n \<le> x \<and> x \<le> broadcast_address n)
                 \<longleftrightarrow> first_int + 2 ^ nbits \<le> x \<and> x \<le> last_int"
        using less[OF smaller] by blast
      have res: "summarize_loop v first_int last_int = Inr (?net # nets)"
        using cont by (simp add: unfold mk nets(1))
      have cover: "(\<exists>n \<in> set (?net # nets). network_address n \<le> x \<and> x \<le> broadcast_address n)
                 \<longleftrightarrow> first_int \<le> x \<and> x \<le> last_int" for x
      proof -
        have "(\<exists>n \<in> set (?net # nets). network_address n \<le> x \<and> x \<le> broadcast_address n)
              \<longleftrightarrow> (first_int \<le> x \<and> x \<le> first_int + 2 ^ nbits - 1) \<or>
                  (first_int + 2 ^ nbits \<le> x \<and> x \<le> last_int)"
          using nets(3) bc by simp
        also have "\<dots> \<longleftrightarrow> first_int \<le> x \<and> x \<le> last_int"
          using fit pos by linarith
        finally show ?thesis .
      qed
      show ?thesis using res vnet nets(2) cover by (intro exI[of _ "?net # nets"]) simp
    qed
  qed
qed

lemmas str_eval = py_isspace_def lstrip_def rstrip_def strip_def rstrip_chars_def strip_chars_def
  split_ws_def split_on_def startswith_def lower_char_def lower_def is_digit_def digit_value_def
  nat_of_digits_def Let_def

lemmas ipstr_eval = parse_octet_def ip_int_from_string_def IPv4Address_of_string_def
  ipv6_fallback_def ip_address_def prefix_from_prefix_string_def prefix_from_ip_int_def
  prefix_from_ip_string_def make_netmask_def IPv4Network_of_def ipv6_network_fallback_def
  ip_network_pair_def ip_network_str_def count_righthand_zero_bits_def bit_length.simps

lemma valid_address_iff: "valid_address a \<longleftrightarrow> addr_ip a < 2 ^ max_prefixlen (addr_version a)"
  by (simp add: valid_address_def IPAddress_def not_less le_ALL_ONES_iff[symmetric])

lemma summarize_address_range_covers:
  assumes "valid_address first_addr" "valid_address last_addr"
    and "addr_version first_addr = addr_version last_addr"
    and "addr_ip first_addr \<le> addr_ip last_addr"
  shows "\<exists>nets. summarize_address_range first_addr last_addr = Inr nets \<and>
           covers_exactly (set nets) first_addr last_addr"
proof -
  let ?v = "addr_version first_addr"
  have lt: "addr_ip last_addr < 2 ^ max_prefixlen ?v"
    using assms(2,3) by (simp add: valid_address_iff)
  obtain nets where nets:
    "summarize_loop ?v (addr_ip first_addr) (addr_ip last_addr) = Inr nets"
    "\<forall>n \<in> set nets. valid_network n \<and> net_version n = ?v"
    "\<forall>x. (\<exists>n \<in> set nets. network_address n \<le> x \<and> x \<le> broadcast_address n)
          \<longleftrightarrow> addr_ip first_addr \<le> x \<and> x \<le> addr_ip last_addr"
    using summarize_loop_covers[OF lt, of "addr_ip first_addr"] by blast
  have res: "summarize_address_range first_addr last_addr = Inr nets"
    using assms(3,4) nets(1) by (simp add: summarize_address_range_def)
  have "(\<exists>n \<in> set nets. contains n a) \<longleftrightarrow>
        (addr_version a = ?v \<and> addr_ip first_addr \<le> addr_ip a \<and> addr_ip a \<le> addr_ip last_addr)"
    if a: "valid_address a" for a
  proof (cases "addr_version a = ?v")
    case False
    then have "\<not> contains n a" if "n \<in> set nets" for n
      using nets(2) that by (auto simp add: contains_def)
    then show ?thesis using False by blast
  next
    case True
    have "contains n a \<longleftrightarrow> network_address n \<le> addr_ip a \<and> addr_ip a \<le> broadcast_address n"
      if "n \<in> set nets" for n
    proof -
      have n: "valid_network n" "net_version n = ?v" using nets(2) that by simp_all
      have "addr_ip a < 2 ^ max_prefixlen (net_version n)"
        using a True n(2) by (simp add: valid_address_iff)
      then show ?thesis using contains_iff[OF n(1)] True n(2) by simp
    qed
    then have "(\<exists>n \<in> set nets. contains n a) \<longleftrightarrow>
               (\<exists>n \<in> set nets. network_address n \<le> addr_ip a \<and> addr_ip a \<le> broadcast_address n)"
      by blast
    then show ?thesis using nets(3) True by simp
  qed
  then have "covers_exactly (set nets) first_addr last_addr"
    by (simp add: covers_exactly_def)
  then show ?thesis using res by blast
qed

lemma parse_octets_props:
  "parse_octets ss = Some ns \<Longrightarrow> length ns = length ss \<and> (\<forall>n \<in> set ns. n \<le> 255)"
proof (induction ss arbitrary: ns)
  case Nil
  then show ?case by simp
next
  case (Cons s ss)
  then show ?case
    by (auto simp add: parse_octet_def Let_def split: option.splits if_splits)
qed

lemma octets_bound:
  assumes "length ns = 4" "\<forall>n \<in> set ns. n \<le> (255::nat)"
  shows "foldl (\<lambda>acc n. acc * 256 + n) 0 ns < 2 ^ 32"
proof -
  obtain a b c d where ns: "ns = [a, b, c, d]"
    using assms(1) by (auto simp add: length_Suc_conv numeral_eq_Suc)
  then have "a \<le> 255" "b \<le> 255" "c \<le> 255" "d \<le> 255" using assms(2) by simp_all
  then show ?thesis unfolding ns by simp
qed

lemma ip_address_Inr:
  assumes "ip_address s = Inr a"
  shows "addr_version a = IPv4" and "addr_ip a < 2 ^ 32"
proof -
  obtain n where n: "IPv4Address_of_string s = Some n" "a = \<lparr>addr_version = IPv4, addr_ip = n\<rparr>"
    using assms by (auto simp add: ip_address_def split: option.splits)
  show "addr_version a = IPv4" using n(2) by simp
  obtain ns where ns: "length (split_on CHR ''.'' s) = 4"
      "parse_octets (split_on CHR ''.'' s) = Some ns"
      "n = foldl (\<lambda>acc n. acc * 256 + n) 0 ns"
    using n(1)
    by (auto simp add: IPv4Address_of_string_def ip_int_from_string_def Let_def
             split: if_splits option.splits)
  have "length ns = 4" "\<forall>n \<in> set ns. n \<le> 255"
    using parse_octets_props[OF ns(2)] ns(1) by simp_all
  then have "n < 2 ^ 32" unfolding ns(3) by (rule octets_bound)
  then show "addr_ip a < 2 ^ 32" using n(2) by simp
qed

text \<open>
  Claim C4. For every pair of addresses \<open>start \<le> stop\<close> that \<open>ipaddress.ip_address\<close> accepts,
  the statement \<open>range start stop ;\<close> inside a \<open>subnet\<close> section raises nothing and adds to
  the reserved set networks that cover exactly the range: an address lies in one of them if and
  only if it lies between \<open>start\<close> and \<open>stop\<close> inclusive.
\<close>

theorem range_statement_covers:
  assumes "ip_address start = Inr first_addr" "ip_address stop = Inr last_addr"
    and "addr_ip first_addr \<le> addr_ip last_addr"
  shows "\<exists>nets. subnet_statement ptr (''range'' # start # stop # extra) =
                  Inr (ptr\<lparr>ds_reserved := ds_reserved ptr \<union> set nets\<rparr>) \<and>
                covers_exactly (set nets) first_addr last_addr"
proof -
  have v: "valid_address first_addr" "valid_address last_addr"
      "addr_version first_addr = addr_version last_addr"
    using ip_address_Inr[OF assms(1)] ip_address_Inr[OF assms(2)]
    by (simp_all add: valid_address_iff)
  obtain nets where nets: "summarize_address_range first_addr last_addr = Inr nets"
      "covers_exactly (set nets) first_addr last_addr"
    using summarize_address_range_covers[OF v assms(3)] by blast
  have "subnet_statement ptr (''range'' # start # stop # extra) =
          Inr (ptr\<lparr>ds_reserved := ds_reserved ptr \<union> set nets\<rparr>)"
    using assms(1,2) nets(1) by (simp add: subnet_statement_def)
  then show ?thesis using nets(2) by blast
qed

lemmas dhcpd_eval = match_literal_def match_spaces1_def match_class1_def is_digit_or_dot_def
  re_section_subnet_def re_line_def re_end_def subnet_statement_def dhcpd_line_def
  parse_dhcpd_conf_def summarize_address_range_def summarize_loop.simps

text \<open>Witness for C4: the statement \<open>range 192.168.1.128 192.168.1.254;\<close>.\<close>

theorem range_statement_covers_witness:
  "ip_address ''192.168.1.128'' = Inr \<lparr>addr_version = IPv4, addr_ip = 3232235904\<rparr> \<and>
   ip_address ''192.168.1.254'' = Inr \<lparr>addr_version = IPv4, addr_ip = 3232236030\<rparr> \<and>
   addr_ip \<lparr>addr_version = IPv4, addr_ip = 3232235904\<rparr>
     \<le> addr_ip \<lparr>addr_version = IPv4, addr_ip = 3232236030\<rparr> \<and>
   (\<exists>nets. subnet_statement
             \<lparr>ds_net = ''192.168.1.0'', ds_mask = ''255.255.255.0'',
              ds_network = \<lparr>net_version = IPv4, network_address = 3232235776, prefixlen = 24\<rparr>,
              ds_reserved = {}, ds_domain = None\<rparr>
             [''range'', ''192.168.1.128'', ''192.168.1.254''] =
           Inr \<lparr>ds_net = ''192.168.1.0'', ds_mask = ''255.255.255.0'',
              ds_network = \<lparr>net_version = IPv4, network_address = 3232235776, prefixlen = 24\<rparr>,
              ds_reserved = set nets, ds_domain = None\<rparr> \<and>
           covers_exactly (set nets) \<lparr>addr_version = IPv4, addr_ip = 3232235904\<rparr>
             \<lparr>addr_version = IPv4, addr_ip = 3232236030\<rparr>)"
proof -
  have a: "ip_address ''192.168.1.128'' = Inr \<lparr>addr_version = IPv4, addr_ip = 3232235904\<rparr>"
    by (simp add: str_eval ipstr_eval)
  have b: "ip_address ''192.168.1.254'' = Inr \<lparr>addr_version = IPv4, addr_ip = 3232236030\<rparr>"
    by (simp add: str_eval ipstr_eval)
  have c: "addr_ip \<lparr>addr_version = IPv4, addr_ip = 3232235904\<rparr>
     \<le> addr_ip \<lparr>addr_version = IPv4, addr_ip = 3232236030\<rparr>"
    by simp
  show ?thesis
    using a b c range_statement_covers[OF a b c, of
       "\<lparr>ds_net = ''192.168.1.0'', ds_mask = ''255.255.255.0'',
              ds_network = \<lparr>net_version = IPv4, network_address = 3232235776, prefixlen = 24\<rparr>,
              ds_reserved = {}, ds_domain = None\<rparr>" "[]"]
    by simp
qed

text \<open>The seven networks the library computes for that range.\<close>

lemma summarize_example:
  "summarize_address_range \<lparr>addr_version = IPv4, addr_ip = 3232235904\<rparr>
     \<lparr>addr_version = IPv4, addr_ip = 3232236030\<rparr> =
   Inr [\<lparr>net_version = IPv4, network_address = 3232235904, prefixlen = 26\<rparr>,
        \<lparr>net_version = IPv4, network_address = 3232235968, prefixlen = 27\<rparr>,
        \<lparr>net_version = IPv4, network_address = 3232236000, prefixlen = 28\<rparr>,
        \<lparr>net_version = IPv4, network_address = 3232236016, prefixlen = 29\<rparr>,
        \<lparr>net_version = IPv4, network_address = 3232236024, prefixlen = 30\<rparr>,
        \<lparr>net_version = IPv4, network_address = 3232236028, prefixlen = 31\<rparr>,
        \<lparr>net_version = IPv4, network_address = 3232236030, prefixlen = 32\<rparr>]"
  by (simp add: dhcpd_eval ipstr_eval ip_eval)

lemma vmx_lines_append:
  "vmx_lines pu s (xs @ ys) =
     (case vmx_lines pu s xs of Inl e \<Rightarrow> Inl e | Inr s' \<Rightarrow> vmx_lines pu s' ys)"
  by (induction xs arbitrary: s) (auto split: sum.splits)

lemma typed_value_policy:
  "typed_value pu sec val = Inr tv \<Longrightarrow> typing_policy pu sec val tv"
  by (auto simp add: typed_value_def typing_policy_def split: if_splits sum.splits option.splits)

lemma vmx_store_recorded:
  "vmx_store sections sec key tv = Inr sections' \<Longrightarrow> vmx_recorded sections' sec key tv"
  by (auto simp add: vmx_store_def vmx_recorded_def update_conv'
           split: option.splits vmx_entry.splits)

lemma vmx_line_recorded:
  assumes "vmx_line pu d0 line = Inr d1"
  shows "case re_eth line of
           None \<Rightarrow> d1 = d0
         | Some (sec, key, val) \<Rightarrow>
             (\<exists>tv. typing_policy pu sec val tv \<and> vmx_recorded d1 sec key tv)"
proof (cases "re_eth line")
  case None
  then show ?thesis using assms by (simp add: vmx_line_def)
next
  case (Some m)
  obtain sec key val where m: "m = (sec, key, val)" by (cases m)
  obtain tv where tv: "typed_value pu sec val = Inr tv" "vmx_store d0 sec key tv = Inr d1"
    using assms Some m by (auto simp add: vmx_line_def split: sum.splits)
  show ?thesis
    using typed_value_policy[OF tv(1)] vmx_store_recorded[OF tv(2)] Some m by auto
qed

text \<open>
  Claim C6, as amended. Whenever \<open>parse_vmx\<close> returns a result, every line of the input was
  handled in turn without an exception: a line that does not match the pattern leaves the
  mapping as it was, and a matching line has a typed value recorded under its section and key,
  typed in this order: \<open>TRUE\<close> and \<open>FALSE\<close> are booleans; otherwise a value of the section
  \<open>uuid\<close> (with UUID parsing on) is the UUID that \<open>uuid.UUID\<close> reads from the value with its
  spaces removed; otherwise the integer of a successful base-10 parse; otherwise the string.
\<close>

theorem parse_vmx_records:
  assumes "parse_vmx pu (pre @ line # post) = Inr d"
  shows "\<exists>d0 d1. parse_vmx pu pre = Inr d0 \<and> vmx_line pu d0 line = Inr d1 \<and>
                 vmx_lines pu d1 post = Inr d \<and>
                 (case re_eth line of
                    None \<Rightarrow> d1 = d0
                  | Some (sec, key, val) \<Rightarrow>
                      (\<exists>tv. typing_policy pu sec val tv \<and> vmx_recorded d1 sec key tv))"
proof -
  obtain d0 where d0: "vmx_lines pu [] pre = Inr d0" "vmx_lines pu d0 (line # post) = Inr d"
    using assms by (auto simp add: parse_vmx_def vmx_lines_append split: sum.splits)
  obtain d1 where d1: "vmx_line pu d0 line = Inr d1" "vmx_lines pu d1 post = Inr d"
    using d0(2) by (auto split: sum.splits)
  show ?thesis
    using d0(1) d1 vmx_line_recorded[OF d1(1)] by (auto simp add: parse_vmx_def)
qed

text \<open>The two exceptions the loop body can raise: ValueError from \<open>uuid.UUID\<close>, TypeError
  from an item assignment into a value that is no dictionary.\<close>

lemma uuid_UUID_error: "uuid_UUID h = Inl e \<Longrightarrow> e = ValueError"
  unfolding uuid_UUID_def Let_def by (simp split: if_splits option.splits)

lemma typed_value_error: "typed_value pu sec val = Inl e \<Longrightarrow> e = ValueError"
  unfolding typed_value_def
  by (simp split: if_splits sum.splits option.splits add: uuid_UUID_error)

lemma vmx_store_error: "vmx_store sections sec key v = Inl e \<Longrightarrow> e = TypeError"
  unfolding vmx_store_def by (simp split: option.splits vmx_entry.splits)

lemma vmx_line_errors:
  assumes "vmx_line pu d0 line = Inl e"
  shows "e = ValueError \<or> e = TypeError"
proof (cases "re_eth line")
  case None
  then show ?thesis using assms by (simp add: vmx_line_def)
next
  case (Some m)
  obtain sec key val where m: "m = (sec, key, val)" by (cases m)
  show ?thesis
  proof (cases "typed_value pu sec val")
    case (Inl e')
    then show ?thesis using assms Some m typed_value_error[OF Inl] by (simp add: vmx_line_def)
  next
    case (Inr v)
    then have "vmx_store d0 sec key v = Inl e" using assms Some m by (simp add: vmx_line_def)
    then show ?thesis using vmx_store_error by blast
  qed
qed

lemmas str_eval' = py_isspace_def lstrip_def rstrip_def strip_def rstrip_chars_def strip_chars_def
  split_ws_def split_on_def startswith_def lower_char_def lower_def is_digit_def digit_value_def
  nat_of_digits_def

lemmas vmx_eval = match_literal_def match_class1_def match_key_value_def re_eth_def
  typed_value_def vmx_store_def vmx_line_def parse_vmx_def uuid_UUID_def py_int_def int_isspace_def
  remove_sub.simps

lemmas networking_eval = match_literal_def match_class1_def re_answer_def answer_value_def
  networking_store_def networking_line_def ip_arg_of_def add_network_def parse_networking_def

text \<open>
  The integer conversion on values with whitespace: a separator such as 0x1F before the digits
  makes \<open>int\<close> fail, so the string is kept; a no-break space or ASCII whitespace around the
  digits is skipped.
\<close>

lemma typed_value_separator:
  "typed_value False None (CHR 0x1F # ''2048'') = Inr (VStr (CHR 0x1F # ''2048''))"
  by (simp add: vmx_eval str_eval' del: Let_def)

lemma typed_value_no_break_space:
  "typed_value False None (CHR 0xA0 # ''2048'') = Inr (VInt 2048)"
  by (simp add: vmx_eval str_eval' del: Let_def)

lemma typed_value_spaces:
  "typed_value False None ('' -2_048'' @ [CHR 0x09, CHR 0x0A]) = Inr (VInt (- 2048))"
  by (simp add: vmx_eval str_eval' del: Let_def)

text \<open>Witness for C6: four lines, the third one \<open>ethernet0.present = "TRUE"\<close>.\<close>

theorem parse_vmx_records_witness:
  \<open>parse_vmx True ([''displayName = "alpha"'', ''# comment''] @
       ''ethernet0.present = "TRUE"'' # [''memsize = "2048"'']) =
     Inr [(''displayName'', Scalar (VStr ''alpha'')),
          (''ethernet0'', Section [(''present'', VBool True)]),
          (''memsize'', Scalar (VInt 2048))] \<and>
   (\<exists>d0 d1. parse_vmx True [''displayName = "alpha"'', ''# comment''] = Inr d0 \<and>
            vmx_line True d0 ''ethernet0.present = "TRUE"'' = Inr d1 \<and>
            vmx_recorded d1 (Some ''ethernet0'') ''present'' (VBool True))\<close>
proof -
  have h: \<open>parse_vmx True ([''displayName = "alpha"'', ''# comment''] @
       ''ethernet0.present = "TRUE"'' # [''memsize = "2048"'']) =
     Inr [(''displayName'', Scalar (VStr ''alpha'')),
          (''ethernet0'', Section [(''present'', VBool True)]),
          (''memsize'', Scalar (VInt 2048))]\<close>
    by (simp add: vmx_eval str_eval')
  have m: \<open>re_eth ''ethernet0.present = "TRUE"'' = Some (Some ''ethernet0'', ''present'', ''TRUE'')\<close>
    by (simp add: vmx_eval str_eval')
  show ?thesis
    using h parse_vmx_records[OF h] by (auto simp add: m typing_policy_def)
qed

text \<open>
  Counterexample to C6 as stated: the line \<open>uuid.action = "create"\<close> matches the pattern, and
  with UUID parsing on the parser records nothing for it: \<open>uuid.UUID\<close> raises ValueError.
\<close>

theorem parse_vmx_uuid_counterexample:
  \<open>parse_vmx True [''uuid.action = "create"''] = Inl ValueError\<close>
  by (simp add: vmx_eval str_eval')

text \<open>The other exception: a section whose name already holds a top-level value.\<close>

lemma parse_vmx_section_clash:
  \<open>parse_vmx False [''ethernet0 = "x"'', ''ethernet0.present = "TRUE"''] = Inl TypeError\<close>
  by (simp add: vmx_eval str_eval')

lemma networking_store_lookup:
  "\<exists>info. map_of (networking_store ret vmnet key v) vmnet = Some info \<and> map_of info key = Some v"
  by (auto simp add: networking_store_def update_conv' split: option.splits)

lemma networking_line_recorded: "answer_recorded (networking_line ret line) line"
proof (cases "re_answer line")
  case None
  then show ?thesis by (simp add: answer_recorded_def)
next
  case (Some m)
  obtain num key val where m: "m = (num, key, val)" by (cases m)
  show ?thesis
    using networking_store_lookup[of ret "''vmnet'' @ num" "lower key" "answer_value val"] Some m
    by (simp add: answer_recorded_def networking_line_def answer_value_def)
qed

lemma networking_line_skip: "re_answer line = None \<Longrightarrow> networking_line ret line = ret"
  by (simp add: networking_line_def)

lemma add_network_attached: "add_network info = Inr info' \<Longrightarrow> network_attached info info'"
  unfolding add_network_def network_attached_def
  by (auto split: option.splits sum.splits)

lemma add_networks_attached:
  "add_networks xs = Inr ys \<Longrightarrow>
     list_all2 (\<lambda>(vmnet, info) (vmnet', info'). vmnet' = vmnet \<and> network_attached info info') xs ys"
proof (induction xs arbitrary: ys)
  case Nil
  then show ?case by simp
next
  case (Cons x xs)
  obtain vmnet info where x: "x = (vmnet, info)" by (cases x)
  obtain info' rest' where r: "add_network info = Inr info'" "add_networks xs = Inr rest'"
      "ys = (vmnet, info') # rest'"
    using Cons.prems x by (auto split: sum.splits)
  show ?case
    using Cons.IH[OF r(2)] add_network_attached[OF r(1)] x r(3) by simp
qed

text \<open>
  Claim C7, as amended. Whenever \<open>parse_networking\<close> returns a result: a line that does not
  match \<open>answer VNET_<N>_<KEY> <value>\<close> leaves the mapping as it was; a matching line has its
  value recorded in the entry \<open>vmnet<N>\<close> under the lower-cased key, \<open>yes\<close> as true, \<open>no\<close> as
  false and anything else as the string itself; and afterwards every entry that holds both the
  subnet address and the netmask has the network that \<open>ipaddress.ip_network\<close> builds from the
  two attached under \<open>network\<close>, every other entry being left as it is.
\<close>

theorem parse_networking_records:
  assumes "parse_networking (pre @ line # post) = Inr ret"
  shows "(re_answer line = None \<longrightarrow>
            networking_line (foldl networking_line [] pre) line = foldl networking_line [] pre) \<and>
         answer_recorded (networking_line (foldl networking_line [] pre) line) line \<and>
         list_all2 (\<lambda>(vmnet, info) (vmnet', info'). vmnet' = vmnet \<and> network_attached info info')
           (foldl networking_line (networking_line (foldl networking_line [] pre) line) post) ret"
proof -
  have "add_networks (foldl networking_line (networking_line (foldl networking_line [] pre) line) post)
          = Inr ret"
    using assms by (simp add: parse_networking_def)
  then show ?thesis
    using add_networks_attached networking_line_recorded networking_line_skip by blast
qed

text \<open>An entry that lacks one of the two keys never makes the parser fail.\<close>

lemma add_network_error_free:
  assumes "map_of info ''hostonly_netmask'' = None \<or> map_of info ''hostonly_subnet'' = None"
  shows "add_network info = Inr info"
  using assms by (auto simp add: add_network_def split: option.splits)

text \<open>Witness for C7: a networking file of six lines, the second one \<open>answer VNET_8_DHCP yes\<close>.\<close>

theorem parse_networking_records_witness:
  "parse_networking ([''VERSION=1,0''] @ ''answer VNET_8_DHCP yes'' #
      [''answer VNET_8_NAT no'', ''answer VNET_8_HOSTONLY_NETMASK 255.255.255.0'',
       ''answer VNET_8_HOSTONLY_SUBNET 192.168.1.0'', ''answer VNET_8_DHCP_CFG_HASH ABCD'']) =
     Inr [(''vmnet8'', [(''dhcp'', NBool True), (''nat'', NBool False),
        (''hostonly_netmask'', NStr ''255.255.255.0''), (''hostonly_subnet'', NStr ''192.168.1.0''),
        (''dhcp_cfg_hash'', NStr ''ABCD''),
        (''network'', NNet \<lparr>net_version = IPv4, network_address = 3232235776, prefixlen = 24\<rparr>)])] \<and>
   answer_recorded (networking_line (foldl networking_line [] [''VERSION=1,0''])
      ''answer VNET_8_DHCP yes'') ''answer VNET_8_DHCP yes'' \<and>
   list_all2 (\<lambda>(vmnet, info) (vmnet', info'). vmnet' = vmnet \<and> network_attached info info')
     (foldl networking_line (networking_line (foldl networking_line [] [''VERSION=1,0''])
         ''answer VNET_8_DHCP yes'')
       [''answer VNET_8_NAT no'', ''answer VNET_8_HOSTONLY_NETMASK 255.255.255.0'',
        ''answer VNET_8_HOSTONLY_SUBNET 192.168.1.0'', ''answer VNET_8_DHCP_CFG_HASH ABCD''])
     [(''vmnet8'', [(''dhcp'', NBool True), (''nat'', NBool False),
        (''hostonly_netmask'', NStr ''255.255.255.0''), (''hostonly_subnet'', NStr ''192.168.1.0''),
        (''dhcp_cfg_hash'', NStr ''ABCD''),
        (''network'', NNet \<lparr>net_version = IPv4, network_address = 3232235776, prefixlen = 24\<rparr>)])]"
proof -
  have h: "parse_networking ([''VERSION=1,0''] @ ''answer VNET_8_DHCP yes'' #
      [''answer VNET_8_NAT no'', ''answer VNET_8_HOSTONLY_NETMASK 255.255.255.0'',
       ''answer VNET_8_HOSTONLY_SUBNET 192.168.1.0'', ''answer VNET_8_DHCP_CFG_HASH ABCD'']) =
     Inr [(''vmnet8'', [(''dhcp'', NBool True), (''nat'', NBool False),
        (''hostonly_netmask'', NStr ''255.255.255.0''), (''hostonly_subnet'', NStr ''192.168.1.0''),
        (''dhcp_cfg_hash'', NStr ''ABCD''),
        (''network'', NNet \<lparr>net_version = IPv4, network_address = 3232235776, prefixlen = 24\<rparr>)])]"
    by (simp add: networking_eval str_eval' ipstr_eval ip_eval del: Let_def)
  show ?thesis using h parse_networking_records[OF h] by blast
qed

text \<open>
  Counterexample to C7 as stated: an entry with both keys whose address 192.168.1.5 has host
  bits set under the netmask 255.255.255.0. \<open>ipaddress.ip_network\<close> raises ValueError, the
  parser returns nothing and no network is attached.
\<close>

theorem parse_networking_host_bits_counterexample:
  "parse_networking [''answer VNET_1_HOSTONLY_NETMASK 255.255.255.0'',
     ''answer VNET_1_HOSTONLY_SUBNET 192.168.1.5''] = Inl ValueError"
  by (simp add: networking_eval str_eval' ipstr_eval ip_eval del: Let_def)

section \<open>An example run\<close>

lemma example_networking_parsed:
  "parse_networking example_networking =
     Inr [(''vmnet8'', [(''dhcp'', NBool True),
        (''hostonly_netmask'', NStr ''255.255.255.0''), (''hostonly_subnet'', NStr ''192.168.1.0''),
        (''nat'', NBool True),
        (''network'', NNet \<lparr>net_version = IPv4, network_address = 3232235776, prefixlen = 24\<rparr>)])]"
  by (simp add: example_networking_def with_newlines_def networking_eval str_eval' ipstr_eval
        ip_eval del: Let_def)

lemma example_dhcpd_conf_parsed:
  "parse_dhcpd_conf example_dhcpd_conf =
     Inr [''subnet'' \<mapsto>
       \<lparr>ds_net = ''192.168.1.0'', ds_mask = ''255.255.255.0'',
        ds_network = \<lparr>net_version = IPv4, network_address = 3232235776, prefixlen = 24\<rparr>,
        ds_reserved =
          {\<lparr>net_version = IPv4, network_address = 3232235904, prefixlen = 26\<rparr>,
           \<lparr>net_version = IPv4, network_address = 3232235968, prefixlen = 27\<rparr>,
           \<lparr>net_version = IPv4, network_address = 3232236000, prefixlen = 28\<rparr>,
           \<lparr>net_version = IPv4, network_address = 3232236016, prefixlen = 29\<rparr>,
           \<lparr>net_version = IPv4, network_address = 3232236024, prefixlen = 30\<rparr>,
           \<lparr>net_version = IPv4, network_address = 3232236028, prefixlen = 31\<rparr>,
           \<lparr>net_version = IPv4, network_address = 3232236030, prefixlen = 32\<rparr>,
           \<lparr>net_version = IPv4, network_address = 3232236031, prefixlen = 32\<rparr>,
           \<lparr>net_version = IPv4, network_address = 3232235778, prefixlen = 32\<rparr>},
        ds_domain = Some ''localdomain''\<rparr>]"
  by (simp add: example_dhcpd_conf_def with_newlines_def dhcpd_eval str_eval' ipstr_eval
        ip_eval insert_commute del: Let_def)

lemmas net_eval = IPNetwork_Inr subnets_def hostmask_eq mask_eq_exp_minus_1 broadcast_eq
  valid_network_iff no_overlap_def overlaps_def contains_iff network_address_of_def
  broadcast_address_of_def find_subnet_def py_range.simps drop_bit_eq_div

lemma example_find_subnet:
  "find_subnet \<lparr>net_version = IPv4, network_address = 3232235776, prefixlen = 24\<rparr>
          {\<lparr>net_version = IPv4, network_address = 3232235904, prefixlen = 26\<rparr>,
           \<lparr>net_version = IPv4, network_address = 3232235968, prefixlen = 27\<rparr>,
           \<lparr>net_version = IPv4, network_address = 3232236000, prefixlen = 28\<rparr>,
           \<lparr>net_version = IPv4, network_address = 3232236016, prefixlen = 29\<rparr>,
           \<lparr>net_version = IPv4, network_address = 3232236024, prefixlen = 30\<rparr>,
           \<lparr>net_version = IPv4, network_address = 3232236028, prefixlen = 31\<rparr>,
           \<lparr>net_version = IPv4, network_address = 3232236030, prefixlen = 32\<rparr>,
           \<lparr>net_version = IPv4, network_address = 3232236031, prefixlen = 32\<rparr>,
           \<lparr>net_version = IPv4, network_address = 3232235778, prefixlen = 32\<rparr>}
     = Inr (Some \<lparr>net_version = IPv4, network_address = 3232235840, prefixlen = 26\<rparr>)"
  by (simp add: net_eval)

lemma example_networks_loop:
  "networks_loop example_env
     [(''vmnet8'', [(''dhcp'', NBool True),
        (''hostonly_netmask'', NStr ''255.255.255.0''), (''hostonly_subnet'', NStr ''192.168.1.0''),
        (''nat'', NBool True),
        (''network'', NNet \<lparr>net_version = IPv4, network_address = 3232235776, prefixlen = 24\<rparr>)])]
   = Inr example_networks"
  by (simp add: network_step_def example_env_def path_join_def startswith_def
        example_dhcpd_conf_parsed example_find_subnet example_networks_def)

lemma example_vmx_alpha_parsed:
  "VirtualMachine example_env ''/vms/a.vmwarevm/a.vmx'' = Inr example_alpha"
  by (simp add: VirtualMachine_def example_env_def example_vmx_alpha_def with_newlines_def
        vmx_eval str_eval' example_alpha_def)

lemma example_vmx_beta_parsed:
  "VirtualMachine example_env ''/vms/b.vmwarevm/b.vmx'' = Inr example_beta"
  by (simp add: VirtualMachine_def example_env_def example_vmx_beta_def with_newlines_def
        vmx_eval str_eval' example_beta_def)

lemma example_sorted:
  "sorted_vms [example_beta, example_alpha] = Inr [example_alpha, example_beta]"
  by (simp add: sorted_vms_def example_alpha_def example_beta_def hostname_is_str_def
        hostname_str_def)

lemmas alloc_eval = interface_step_def known_connection_def NETWORKS_def fixed_ip_at_def
  getitem_def IPAddress_def ALL_ONES_def str_of_address_def str_of_nat.simps join_def
  dhcpd_static_block_def str_of_hostname_def confs_of_def startswith_def lower_def
  lower_char_def broadcast_eq valid_network_iff

lemma example_str_64: "str_of_address \<lparr>addr_version = IPv4, addr_ip = 3232235840\<rparr> = Inr ''192.168.1.64''"
  by (simp add: alloc_eval)

lemma example_vms_loop:
  "vms_loop example_networks [example_alpha, example_beta] [] =
     Inr [(''vmnet8'', [example_block_alpha, example_block_beta])]"
  by (simp add: example_networks_def example_alpha_def example_beta_def alloc_eval
        example_block_alpha_def example_block_beta_def)

lemma example_main_confs:
  "main_confs example_env = Inr [(''vmnet8'', [example_block_alpha, example_block_beta])]"
proof -
  have f: "files example_env (path_join (prefs_dir example_env) ''networking'') = Some example_networking"
    by (simp add: example_env_def path_join_def startswith_def)
  have l: "load_vms example_env (vmx_paths example_env) = Inr [example_beta, example_alpha]"
    using example_vmx_alpha_parsed example_vmx_beta_parsed by (simp add: example_env_def)
  show ?thesis
    unfolding main_confs_def Let_def
    by (simp only: f l example_networking_parsed example_networks_loop example_sorted
          example_vms_loop option.case sum.case)
qed

lemma confs_of_update:
  "confs_of (AList.update k v c) k' = (if k' = k then v else confs_of c k')"
  by (simp add: confs_of_def update_conv')

text \<open>The index expression on a network whose \<open>network_fixed\<close> is a block.\<close>

lemma fixed_ip_at_block:
  assumes "map_of networks vmnet = Some info" "map_of info ''network_fixed'' = Some (NNet block)"
    and "valid_network block"
  shows "fixed_ip_at networks vmnet n =
           (if num_addresses block \<le> n then Inl IndexError
            else str_of_address \<lparr>addr_version = net_version block,
                                 addr_ip = network_address block + n\<rparr>)"
proof -
  let ?h = "max_prefixlen (net_version block) - prefixlen block"
  have pos: "(0::nat) < 2 ^ ?h" by simp
  have bc: "broadcast_address block = network_address block + 2 ^ ?h - 1"
    by (rule broadcast_eq[OF assms(3)])
  have na: "num_addresses block = 2 ^ ?h" using pos by (simp add: num_addresses_def bc)
  have top: "network_address block + 2 ^ ?h \<le> 2 ^ max_prefixlen (net_version block)"
    by (rule valid_network_top[OF assms(3)])
  have gi: "getitem block n =
          (if num_addresses block \<le> n then Inl IndexError
           else Inr \<lparr>addr_version = net_version block, addr_ip = network_address block + n\<rparr>)"
  proof (cases "num_addresses block \<le> n")
    case True
    then have "network_address block + n > broadcast_address block"
      using pos unfolding na bc by linarith
    then show ?thesis using True by (simp add: getitem_def Let_def)
  next
    case False
    then have le: "\<not> network_address block + n > broadcast_address block"
      using pos unfolding na bc by linarith
    have "network_address block + n \<le> ALL_ONES (net_version block)"
      using False top unfolding na le_ALL_ONES_iff by linarith
    then show ?thesis using False le by (simp add: getitem_def Let_def IPAddress_def)
  qed
  show ?thesis using assms(1,2) by (simp add: fixed_ip_at_def gi)
qed

lemma interface_step_cases:
  assumes "interface_step networks vm sec entry c = Inr c'"
  shows "(interface_of vm (sec, entry) = [] \<and> c' = c) \<or>
         (\<exists>q ip blk. interface_of vm (sec, entry) = [q] \<and>
            fixed_ip_at networks (if_vmnet q) (length (confs_of c (if_vmnet q))) = Inr ip \<and>
            dhcpd_static_block (if_vm q) ip (lower (if_mac q))
              [(''conn'', if_conn q), (''net'', if_vmnet q), (''dev'', if_section q)] = Inr blk \<and>
            c' = AList.update (if_vmnet q) (confs_of c (if_vmnet q) @ [blk]) c)"
  using assms unfolding interface_step_def interface_of_def
  by (auto split: if_splits vmx_entry.splits option.splits prod.splits vmx_value.splits sum.splits)

lemma interfaces_loop_spec:
  assumes "interfaces_loop networks vm entries c = Inr c'"
  shows "\<exists>blocks. confs_of c' vmnet = confs_of c vmnet @ blocks \<and>
           list_all2 (assigned_at networks)
             (enumerate (length (confs_of c vmnet))
                (filter (\<lambda>q. if_vmnet q = vmnet) (concat (map (interface_of vm) entries))))
             blocks"
  using assms
proof (induction entries arbitrary: c)
  case Nil
  then show ?case by simp
next
  case (Cons entry rest)
  obtain sec e where entry: "entry = (sec, e)" by (cases entry)
  obtain c1 where c1: "interface_step networks vm sec e c = Inr c1"
      "interfaces_loop networks vm rest c1 = Inr c'"
    using Cons.prems entry by (auto split: sum.splits)
  obtain blocks where ih: "confs_of c' vmnet = confs_of c1 vmnet @ blocks"
      "list_all2 (assigned_at networks)
         (enumerate (length (confs_of c1 vmnet))
            (filter (\<lambda>q. if_vmnet q = vmnet) (concat (map (interface_of vm) rest))))
         blocks"
    using Cons.IH[OF c1(2)] by blast
  from interface_step_cases[OF c1(1)] show ?case
  proof
    assume "interface_of vm (sec, e) = [] \<and> c1 = c"
    then show ?thesis using ih entry by auto
  next
    assume "\<exists>q ip blk. interface_of vm (sec, e) = [q] \<and>
            fixed_ip_at networks (if_vmnet q) (length (confs_of c (if_vmnet q))) = Inr ip \<and>
            dhcpd_static_block (if_vm q) ip (lower (if_mac q))
              [(''conn'', if_conn q), (''net'', if_vmnet q), (''dev'', if_section q)] = Inr blk \<and>
            c1 = AList.update (if_vmnet q) (confs_of c (if_vmnet q) @ [blk]) c"
    then obtain q ip blk where q: "interface_of vm (sec, e) = [q]"
        "fixed_ip_at networks (if_vmnet q) (length (confs_of c (if_vmnet q))) = Inr ip"
        "dhcpd_static_block (if_vm q) ip (lower (if_mac q))
              [(''conn'', if_conn q), (''net'', if_vmnet q), (''dev'', if_section q)] = Inr blk"
        "c1 = AList.update (if_vmnet q) (confs_of c (if_vmnet q) @ [blk]) c"
      by blast
    show ?thesis
    proof (cases "if_vmnet q = vmnet")
      case True
      have c1v: "confs_of c1 vmnet = confs_of c vmnet @ [blk]"
        using q(4) True by (simp add: confs_of_update)
      have a: "assigned_at networks (length (confs_of c vmnet), q) blk"
        using q(2,3) True by (auto simp add: assigned_at_def)
      have "list_all2 (assigned_at networks)
              (enumerate (length (confs_of c vmnet))
                 (filter (\<lambda>q. if_vmnet q = vmnet) (concat (map (interface_of vm) (entry # rest)))))
              (blk # blocks)"
        using ih(2) a q(1) True entry c1v by simp
      moreover have "confs_of c' vmnet = confs_of c vmnet @ (blk # blocks)"
        using ih(1) c1v by simp
      ultimately show ?thesis by blast
    next
      case False
      then have "confs_of c1 vmnet = confs_of c vmnet"
        using q(4) by (simp add: confs_of_update)
      then show ?thesis using ih q(1) False entry by auto
    qed
  qed
qed

lemma vms_loop_spec:
  assumes "vms_loop networks vms c = Inr c'"
  shows "\<exists>blocks. confs_of c' vmnet = confs_of c vmnet @ blocks \<and>
           list_all2 (assigned_at networks)
             (enumerate (length (confs_of c vmnet))
                (filter (\<lambda>q. if_vmnet q = vmnet) (all_interfaces vms)))
             blocks"
  using assms
proof (induction vms arbitrary: c)
  case Nil
  then show ?case by (simp add: all_interfaces_def)
next
  case (Cons vm rest)
  let ?f = "filter (\<lambda>q. if_vmnet q = vmnet)"
  obtain c1 where c1: "interfaces_loop networks vm (sort_key fst (vm_info vm)) c = Inr c1"
      "vms_loop networks rest c1 = Inr c'"
    using Cons.prems by (auto split: sum.splits)
  obtain b1 where b1: "confs_of c1 vmnet = confs_of c vmnet @ b1"
      "list_all2 (assigned_at networks)
         (enumerate (length (confs_of c vmnet)) (?f (interfaces_of vm))) b1"
    using interfaces_loop_spec[OF c1(1), of vmnet] by (auto simp add: interfaces_of_def)
  obtain b2 where b2: "confs_of c' vmnet = confs_of c1 vmnet @ b2"
      "list_all2 (assigned_at networks)
         (enumerate (length (confs_of c1 vmnet)) (?f (all_interfaces rest))) b2"
    using Cons.IH[OF c1(2)] by blast
  have len: "length b1 = length (?f (interfaces_of vm))"
    using list_all2_lengthD[OF b1(2)] by simp
  have "enumerate (length (confs_of c vmnet)) (?f (all_interfaces (vm # rest))) =
        enumerate (length (confs_of c vmnet)) (?f (interfaces_of vm)) @
        enumerate (length (confs_of c1 vmnet)) (?f (all_interfaces rest))"
    using b1(1) len by (simp add: all_interfaces_def enumerate_append_eq)
  then have "list_all2 (assigned_at networks)
               (enumerate (length (confs_of c vmnet)) (?f (all_interfaces (vm # rest)))) (b1 @ b2)"
    using b1(2) b2(2) by (simp add: list_all2_appendI)
  moreover have "confs_of c' vmnet = confs_of c vmnet @ (b1 @ b2)" using b1(1) b2(1) by simp
  ultimately show ?case by blast
qed

lemma sorted_vms_str:
  assumes "\<forall>vm \<in> set vms. hostname_is_str (vm_hostname vm)" "sorted_vms vms = Inr ordered"
  shows "ordered = sort_key (\<lambda>vm. hostname_str (vm_hostname vm)) vms"
proof (cases "length vms \<le> 1")
  case True
  then have "vms = [] \<or> (\<exists>vm. vms = [vm])" by (cases vms) auto
  then have "sort_key (\<lambda>vm. hostname_str (vm_hostname vm)) vms = vms" by auto
  then show ?thesis using assms(2) True by (simp add: sorted_vms_def)
next
  case False
  then show ?thesis using assms by (simp add: sorted_vms_def)
qed

text \<open>
  Claim C8. When every hostname is a string, the machines are processed in ascending hostname
  order (a stable sort of the globbed list), and for every virtual network the blocks emitted
  are, in that order, the known interfaces of the machines attached to it: the interface at
  position \<open>i\<close> of the network gets the address \<open>network_fixed[i]\<close>, the network address of
  the fixed block plus \<open>i\<close>, so the addresses increase one by one without a gap.
\<close>

theorem addresses_in_processing_order:
  assumes "\<forall>vm \<in> set vms. hostname_is_str (vm_hostname vm)"
    and "sorted_vms vms = Inr ordered"
    and "vms_loop networks ordered [] = Inr dhcp_confs"
    and "map_of networks vmnet = Some info"
    and "map_of info ''network_fixed'' = Some (NNet block)"
    and "valid_network block"
  shows "ordered = sort_key (\<lambda>vm. hostname_str (vm_hostname vm)) vms \<and>
         list_all2 (host_block_at block)
           (enumerate 0 (filter (\<lambda>q. if_vmnet q = vmnet) (all_interfaces ordered)))
           (confs_of dhcp_confs vmnet)"
proof -
  let ?qs = "filter (\<lambda>q. if_vmnet q = vmnet) (all_interfaces ordered)"
  have asg_all: "list_all2 (assigned_at networks) (enumerate 0 ?qs) (confs_of dhcp_confs vmnet)"
    using vms_loop_spec[OF assms(3), of vmnet] by (simp add: confs_of_def)
  have hb: "host_block_at block iq blk"
    if mem: "iq \<in> set (enumerate 0 ?qs)" and asg: "assigned_at networks iq blk" for iq blk
  proof -
    have "fst iq < length ?qs" "?qs ! fst iq = snd iq"
      using mem by (simp_all add: in_set_enumerate_eq)
    then have "snd iq \<in> set ?qs" using nth_mem[of "fst iq" ?qs] by simp
    then have v: "if_vmnet (snd iq) = vmnet" by simp
    obtain ip where ip: "fixed_ip_at networks vmnet (fst iq) = Inr ip"
        "dhcpd_static_block (if_vm (snd iq)) ip (lower (if_mac (snd iq)))
             [(''conn'', if_conn (snd iq)), (''net'', if_vmnet (snd iq)),
              (''dev'', if_section (snd iq))] = Inr blk"
      using asg v by (auto simp add: assigned_at_def)
    have "str_of_address \<lparr>addr_version = net_version block,
                           addr_ip = network_address block + fst iq\<rparr> = Inr ip"
      using ip(1) unfolding fixed_ip_at_block[OF assms(4,5,6)] by (simp split: if_splits)
    then show ?thesis using ip(2) by (auto simp add: host_block_at_def)
  qed
  have "list_all2 (host_block_at block) (enumerate 0 ?qs) (confs_of dhcp_confs vmnet)"
    by (rule list.rel_mono_strong[OF asg_all]) (rule hb)
  then show ?thesis using sorted_vms_str[OF assms(1,2)] by simp
qed

text \<open>
  Claim C5. The counter of a network is the number of blocks it has been given. Indexing the
  fixed block at a counter that has reached its number of addresses raises IndexError; so does
  the step of an interface of that network, and with it the run; and a run that ends normally
  has given no network more blocks than its fixed block has addresses.
\<close>

theorem address_exhaustion_raises:
  assumes "map_of networks vmnet = Some info"
    and "map_of info ''network_fixed'' = Some (NNet block)"
    and "valid_network block"
  shows "(num_addresses block \<le> n \<longrightarrow> fixed_ip_at networks vmnet n = Inl IndexError) \<and>
         (\<forall>vm entry q dhcp_confs.
            interface_of vm entry = [q] \<and> if_vmnet q = vmnet \<and>
            num_addresses block \<le> length (confs_of dhcp_confs vmnet) \<longrightarrow>
            interface_step networks vm (fst entry) (snd entry) dhcp_confs = Inl IndexError) \<and>
         (\<forall>vms dhcp_confs.
            vms_loop networks vms [] = Inr dhcp_confs \<longrightarrow>
            length (confs_of dhcp_confs vmnet) \<le> num_addresses block)"
proof (intro conjI allI impI)
  assume "num_addresses block \<le> n"
  then show "fixed_ip_at networks vmnet n = Inl IndexError"
    by (simp add: fixed_ip_at_block[OF assms])
next
  fix vm entry q dhcp_confs
  assume a: "interface_of vm entry = [q] \<and> if_vmnet q = vmnet \<and>
             num_addresses block \<le> length (confs_of dhcp_confs vmnet)"
  then have ix: "fixed_ip_at networks vmnet (length (confs_of dhcp_confs vmnet)) = Inl IndexError"
    by (simp add: fixed_ip_at_block[OF assms])
  show "interface_step networks vm (fst entry) (snd entry) dhcp_confs = Inl IndexError"
    using a ix unfolding interface_step_def interface_of_def
    by (auto split: if_splits vmx_entry.splits option.splits prod.splits vmx_value.splits)
next
  fix vms dhcp_confs
  assume run: "vms_loop networks vms [] = Inr dhcp_confs"
  let ?qs = "filter (\<lambda>q. if_vmnet q = vmnet) (all_interfaces vms)"
  let ?bs = "confs_of dhcp_confs vmnet"
  have all: "list_all2 (assigned_at networks) (enumerate 0 ?qs) ?bs"
    using vms_loop_spec[OF run, of vmnet] by (simp add: confs_of_def)
  show "length ?bs \<le> num_addresses block"
  proof (cases "?bs = []")
    case True
    then show ?thesis by simp
  next
    case False
    have len: "length ?qs = length ?bs" using list_all2_lengthD[OF all] by simp
    let ?j = "length ?bs - 1"
    have j: "?j < length ?bs" using False by simp
    then have "assigned_at networks (enumerate 0 ?qs ! ?j) (?bs ! ?j)"
      using all len by (simp add: list_all2_conv_all_nth)
    moreover have e: "enumerate 0 ?qs ! ?j = (?j, ?qs ! ?j)" using j len by (simp add: nth_enumerate_eq)
    moreover have "if_vmnet (?qs ! ?j) = vmnet"
      using nth_mem[of ?j ?qs] j len by simp
    ultimately obtain ip where "fixed_ip_at networks vmnet ?j = Inr ip"
      by (auto simp add: assigned_at_def)
    then have "\<not> num_addresses block \<le> ?j"
      unfolding fixed_ip_at_block[OF assms] by (simp split: if_splits)
    then show ?thesis by linarith
  qed
qed

lemma networks_loop_append:
  "networks_loop e (xs @ ys) =
     (case networks_loop e xs of
        Inl err \<Rightarrow> Inl err
      | Inr xs' \<Rightarrow> (case networks_loop e ys of Inl err \<Rightarrow> Inl err | Inr ys' \<Rightarrow> Inr (xs' @ ys')))"
  by (induction xs) (auto split: sum.splits)

text \<open>
  Claim C10. The first loop reads \<open>info['dhcp']\<close> of every network: a network whose mapping
  has no \<open>dhcp\<close> key makes its step raise KeyError, and the loop ends with that exception
  unless an earlier network has raised already; it never skips the network.
\<close>

theorem missing_dhcp_key_raises:
  assumes "map_of info ''dhcp'' = None"
  shows "network_step e vmnet info = Inl (KeyError ''dhcp'') \<and>
         networks_loop e (before @ (vmnet, info) # after) =
           (case networks_loop e before of
              Inl err \<Rightarrow> Inl err
            | Inr done \<Rightarrow> Inl (KeyError ''dhcp''))"
proof -
  have step: "network_step e vmnet info = Inl (KeyError ''dhcp'')"
    using assms by (simp add: network_step_def)
  then have "networks_loop e ((vmnet, info) # after) = Inl (KeyError ''dhcp'')" by simp
  then show ?thesis using step by (simp add: networks_loop_append split: sum.splits)
qed

lemma example_no_dhcp_parsed:
  "parse_networking (with_newlines
                 [''answer VNET_1_HOSTONLY_NETMASK 255.255.255.0'',
                  ''answer VNET_1_HOSTONLY_SUBNET 172.16.7.0'',
                  ''answer VNET_1_VIRTUAL_ADAPTER yes'']) =
     Inr [(''vmnet1'', [(''hostonly_netmask'', NStr ''255.255.255.0''),
        (''hostonly_subnet'', NStr ''172.16.7.0''), (''virtual_adapter'', NBool True),
        (''network'', NNet \<lparr>net_version = IPv4, network_address = 2886731520, prefixlen = 24\<rparr>)])]"
  by (simp add: with_newlines_def networking_eval str_eval' ipstr_eval ip_eval del: Let_def)

text \<open>Witness for C10: the run on that networking file ends with KeyError.\<close>

theorem missing_dhcp_key_raises_witness:
  "map_of [(''hostonly_netmask'', NStr ''255.255.255.0''),
        (''hostonly_subnet'', NStr ''172.16.7.0''), (''virtual_adapter'', NBool True),
        (''network'', NNet \<lparr>net_version = IPv4, network_address = 2886731520, prefixlen = 24\<rparr>)]
      ''dhcp'' = None \<and>
   networks_loop example_env_no_dhcp
     ([] @ (''vmnet1'', [(''hostonly_netmask'', NStr ''255.255.255.0''),
        (''hostonly_subnet'', NStr ''172.16.7.0''), (''virtual_adapter'', NBool True),
        (''network'', NNet \<lparr>net_version = IPv4, network_address = 2886731520, prefixlen = 24\<rparr>)])
       # []) = Inl (KeyError ''dhcp'') \<and>
   main ''2024-05-01T12:00:00'' example_env_no_dhcp = Inl (KeyError ''dhcp'')"
proof -
  let ?info = "[(''hostonly_netmask'', NStr ''255.255.255.0''),
        (''hostonly_subnet'', NStr ''172.16.7.0''), (''virtual_adapter'', NBool True),
        (''network'', NNet \<lparr>net_version = IPv4, network_address = 2886731520, prefixlen = 24\<rparr>)]"
  have h: "map_of ?info ''dhcp'' = None" by simp
  have loop: "networks_loop example_env_no_dhcp ([] @ (''vmnet1'', ?info) # []) =
                Inl (KeyError ''dhcp'')"
    using missing_dhcp_key_raises[OF h, of example_env_no_dhcp "''vmnet1''" "[]" "[]"] by simp
  have f: "files example_env_no_dhcp (path_join (prefs_dir example_env_no_dhcp) ''networking'') =
        Some (with_newlines
                 [''answer VNET_1_HOSTONLY_NETMASK 255.255.255.0'',
                  ''answer VNET_1_HOSTONLY_SUBNET 172.16.7.0'',
                  ''answer VNET_1_VIRTUAL_ADAPTER yes''])"
    by (simp add: example_env_no_dhcp_def path_join_def startswith_def)
  have "main_confs example_env_no_dhcp = Inl (KeyError ''dhcp'')"
    unfolding main_confs_def Let_def
    using loop by (simp only: f example_no_dhcp_parsed option.case sum.case append_Nil)
  then show ?thesis using h loop by (simp add: main_def)
qed

lemma network_mismatch_raises:
  assumes "map_of info ''dhcp'' = Some (NBool True)"
    and "files e (path_join (path_join (prefs_dir e) vmnet) ''dhcpd.conf'') = Some dconf"
    and "parse_dhcpd_conf dconf = Inr ret" and "ret ''subnet'' = Some subnet"
    and "map_of info ''network'' = Some network" and "network \<noteq> NNet (ds_network subnet)"
  shows "network_step e vmnet info = Inl (NameError ''net'')"
  using assms by (simp add: network_step_def Let_def update_conv')

lemma example_mismatch_conf_parsed:
  "\<exists>reserved. parse_dhcpd_conf (with_newlines
        [''subnet 192.168.2.0 netmask 255.255.255.0 {'',
         ''    range 192.168.2.128 192.168.2.254;'',
         ''}'']) =
     Inr [''subnet'' \<mapsto>
       \<lparr>ds_net = ''192.168.2.0'', ds_mask = ''255.255.255.0'',
        ds_network = \<lparr>net_version = IPv4, network_address = 3232236032, prefixlen = 24\<rparr>,
        ds_reserved = reserved, ds_domain = None\<rparr>]"
  apply (simp add: with_newlines_def dhcpd_eval str_eval' ipstr_eval ip_eval del: Let_def)
  apply (rule exI)
  apply (rule refl)
  done

text \<open>
  Claim C2 fails on the code. With the lease file of \<open>example_env_mismatch\<close> the comparison
  \<open>info["network"] != dhcp_net\<close> holds, the arguments of \<open>logging.warning\<close> are evaluated, and
  the unbound name \<open>net\<close> ends the run with NameError: no warning is logged and nothing is
  allocated.
\<close>

theorem mismatch_raises_name_error:
  "main now example_env_mismatch = Inl (NameError ''net'')"
proof -
  obtain reserved where conf: "parse_dhcpd_conf (with_newlines
        [''subnet 192.168.2.0 netmask 255.255.255.0 {'',
         ''    range 192.168.2.128 192.168.2.254;'',
         ''}'']) =
     Inr [''subnet'' \<mapsto>
       \<lparr>ds_net = ''192.168.2.0'', ds_mask = ''255.255.255.0'',
        ds_network = \<lparr>net_version = IPv4, network_address = 3232236032, prefixlen = 24\<rparr>,
        ds_reserved = reserved, ds_domain = None\<rparr>]"
    using example_mismatch_conf_parsed by blast
  have f: "files example_env_mismatch
             (path_join (prefs_dir example_env_mismatch) ''networking'') = Some example_networking"
    by (simp add: example_env_mismatch_def example_env_def path_join_def startswith_def)
  have step: "network_step example_env_mismatch ''vmnet8''
     [(''dhcp'', NBool True),
        (''hostonly_netmask'', NStr ''255.255.255.0''), (''hostonly_subnet'', NStr ''192.168.1.0''),
        (''nat'', NBool True),
        (''network'', NNet \<lparr>net_version = IPv4, network_address = 3232235776, prefixlen = 24\<rparr>)]
     = Inl (NameError ''net'')"
  proof (rule network_mismatch_raises[OF _ _ conf])
    show "[''subnet'' \<mapsto>
       \<lparr>ds_net = ''192.168.2.0'', ds_mask = ''255.255.255.0'',
        ds_network = \<lparr>net_version = IPv4, network_address = 3232236032, prefixlen = 24\<rparr>,
        ds_reserved = reserved, ds_domain = None\<rparr>] ''subnet'' =
      Some \<lparr>ds_net = ''192.168.2.0'', ds_mask = ''255.255.255.0'',
        ds_network = \<lparr>net_version = IPv4, network_address = 3232236032, prefixlen = 24\<rparr>,
        ds_reserved = reserved, ds_domain = None\<rparr>"
      by simp
    show "NNet \<lparr>net_version = IPv4, network_address = 3232235776, prefixlen = 24\<rparr> \<noteq>
      NNet (ds_network \<lparr>ds_net = ''192.168.2.0'', ds_mask = ''255.255.255.0'',
        ds_network = \<lparr>net_version = IPv4, network_address = 3232236032, prefixlen = 24\<rparr>,
        ds_reserved = reserved, ds_domain = None\<rparr>)"
      by simp
  qed (simp_all add: example_env_mismatch_def example_env_def path_join_def startswith_def)
  have "main_confs example_env_mismatch = Inl (NameError ''net'')"
    unfolding main_confs_def Let_def
    by (simp only: f example_networking_parsed networks_loop.simps step option.case sum.case)
  then show ?thesis by (simp add: main_def)
qed

lemma example_block_valid:
  "valid_network \<lparr>net_version = IPv4, network_address = 3232235840, prefixlen = 26\<rparr>"
  by (simp add: valid_network_iff)

lemma example_block_size:
  "num_addresses \<lparr>net_version = IPv4, network_address = 3232235840, prefixlen = 26\<rparr> = 64"
  by (simp add: num_addresses_def broadcast_eq[OF example_block_valid])

text \<open>
  Witness for C8: the machines named alpha and beta of the example, globbed in the order beta,
  alpha, with the free block 192.168.1.64/26. The blocks emitted for the nat network are those
  of alpha with 192.168.1.64 and of beta with 192.168.1.65.
\<close>

theorem addresses_in_processing_order_witness:
  "list_all (\<lambda>vm. hostname_is_str (vm_hostname vm)) [example_beta, example_alpha] \<and>
   sorted_vms [example_beta, example_alpha] = Inr [example_alpha, example_beta] \<and>
   vms_loop example_networks [example_alpha, example_beta] [] =
     Inr [(''vmnet8'', [example_block_alpha, example_block_beta])] \<and>
   map_of example_networks ''vmnet8'' = Some (snd (hd example_networks)) \<and>
   map_of (snd (hd example_networks)) ''network_fixed'' =
     Some (NNet \<lparr>net_version = IPv4, network_address = 3232235840, prefixlen = 26\<rparr>) \<and>
   [example_alpha, example_beta] =
     sort_key (\<lambda>vm. hostname_str (vm_hostname vm)) [example_beta, example_alpha] \<and>
   list_all2
     (host_block_at \<lparr>net_version = IPv4, network_address = 3232235840, prefixlen = 26\<rparr>)
     (enumerate 0 (filter (\<lambda>q. if_vmnet q = ''vmnet8'')
        (all_interfaces [example_alpha, example_beta])))
     [example_block_alpha, example_block_beta] \<and>
   example_block_alpha =
     ''# alpha conn=nat dev=ethernet0 net=vmnet8'' @ [CHR 0x0A] @
     ''host alpha {'' @ [CHR 0x0A] @
     ''    hardware ethernet 00:0c:29:aa:bb:01;'' @ [CHR 0x0A] @
     ''    fixed-address 192.168.1.64;'' @ [CHR 0x0A] @
     ''}'' @ [CHR 0x0A] \<and>
   example_block_beta =
     ''# beta conn=nat dev=ethernet0 net=vmnet8'' @ [CHR 0x0A] @
     ''host beta {'' @ [CHR 0x0A] @
     ''    hardware ethernet 00:0c:29:aa:bb:02;'' @ [CHR 0x0A] @
     ''    fixed-address 192.168.1.65;'' @ [CHR 0x0A] @
     ''}'' @ [CHR 0x0A]"
proof -
  have h1: "\<forall>vm \<in> set [example_beta, example_alpha]. hostname_is_str (vm_hostname vm)"
    by (simp add: example_alpha_def example_beta_def hostname_is_str_def)
  have h4: "map_of example_networks ''vmnet8'' = Some (snd (hd example_networks))"
    by (simp add: example_networks_def)
  have h5: "map_of (snd (hd example_networks)) ''network_fixed'' =
     Some (NNet \<lparr>net_version = IPv4, network_address = 3232235840, prefixlen = 26\<rparr>)"
    by (simp add: example_networks_def)
  have c: "confs_of [(''vmnet8'', [example_block_alpha, example_block_beta])] ''vmnet8'' =
             [example_block_alpha, example_block_beta]"
    by (simp add: confs_of_def)
  note inst = addresses_in_processing_order[OF h1 example_sorted example_vms_loop h4 h5
      example_block_valid]
  have r1: "[example_alpha, example_beta] =
     sort_key (\<lambda>vm. hostname_str (vm_hostname vm)) [example_beta, example_alpha]"
    by (rule conjunct1[OF inst])
  have r2: "list_all2
     (host_block_at \<lparr>net_version = IPv4, network_address = 3232235840, prefixlen = 26\<rparr>)
     (enumerate 0 (filter (\<lambda>q. if_vmnet q = ''vmnet8'')
        (all_interfaces [example_alpha, example_beta])))
     [example_block_alpha, example_block_beta]"
    using conjunct2[OF inst] unfolding c .
  have l: "list_all (\<lambda>vm. hostname_is_str (vm_hostname vm)) [example_beta, example_alpha]"
    using h1 by (simp only: list_all_iff)
  show ?thesis
    by (intro conjI)
       (rule l example_sorted example_vms_loop h4 h5 r1 r2 example_block_alpha_def
          example_block_beta_def)+
qed

text \<open>
  Witness for C5: the free block 192.168.1.64/26 of the example has 64 addresses, and the index
  64 raises IndexError.
\<close>

theorem address_exhaustion_raises_witness:
  "map_of example_networks ''vmnet8'' = Some (snd (hd example_networks)) \<and>
   map_of (snd (hd example_networks)) ''network_fixed'' =
     Some (NNet \<lparr>net_version = IPv4, network_address = 3232235840, prefixlen = 26\<rparr>) \<and>
   valid_network \<lparr>net_version = IPv4, network_address = 3232235840, prefixlen = 26\<rparr> \<and>
   num_addresses \<lparr>net_version = IPv4, network_address = 3232235840, prefixlen = 26\<rparr> = 64 \<and>
   fixed_ip_at example_networks ''vmnet8'' 63 = Inr ''192.168.1.127'' \<and>
   fixed_ip_at example_networks ''vmnet8'' 64 = Inl IndexError"
proof -
  have h4: "map_of example_networks ''vmnet8'' = Some (snd (hd example_networks))"
    by (simp add: example_networks_def)
  have h5: "map_of (snd (hd example_networks)) ''network_fixed'' =
     Some (NNet \<lparr>net_version = IPv4, network_address = 3232235840, prefixlen = 26\<rparr>)"
    by (simp add: example_networks_def)
  have l63: "fixed_ip_at example_networks ''vmnet8'' 63 = Inr ''192.168.1.127''"
    by (simp add: example_networks_def alloc_eval)
  have "fixed_ip_at example_networks ''vmnet8'' 64 = Inl IndexError"
    using address_exhaustion_raises[OF h4 h5 example_block_valid, of 64]
    by (simp add: example_block_size)
  then show ?thesis using h4 h5 example_block_valid example_block_size l63 by simp
qed

lemma example_no_dhcp_confs: "main_confs example_env_no_dhcp = Inl (KeyError ''dhcp'')"
proof -
  have f: "files example_env_no_dhcp (path_join (prefs_dir example_env_no_dhcp) ''networking'') =
        Some (with_newlines
                 [''answer VNET_1_HOSTONLY_NETMASK 255.255.255.0'',
                  ''answer VNET_1_HOSTONLY_SUBNET 172.16.7.0'',
                  ''answer VNET_1_VIRTUAL_ADAPTER yes''])"
    by (simp add: example_env_no_dhcp_def path_join_def startswith_def)
  show ?thesis
    unfolding main_confs_def Let_def
    by (simp only: f example_no_dhcp_parsed option.case sum.case) (simp add: network_step_def)
qed

lemma print_groups_length:
  "length (concat (map (print_group now) gs)) + length gs * length now' =
   length (concat (map (print_group now') gs)) + length gs * length now"
  by (induction gs) (simp_all add: print_group_def header_def)

lemma print_groups_clock:
  assumes "concat (map (print_group now) gs) = concat (map (print_group now') gs)"
    and "gs \<noteq> []"
  shows "now = now'"
proof -
  have "length gs * length now' = length gs * length now"
    using print_groups_length[of now gs now'] assms(1) by simp
  then have len: "length now = length now'" using assms(2) by simp
  obtain g rest where gs: "gs = g # rest" using assms(2) by (cases gs) auto
  have "now @ ('' '' @ fst g @ '' fixed-address configs ##'' @ [CHR 0x0A] @ [CHR 0x0A] @
           concat (map (\<lambda>item. item @ [CHR 0x0A]) (snd g)) @
           concat (map (print_group now) rest)) =
        now' @ ('' '' @ fst g @ '' fixed-address configs ##'' @ [CHR 0x0A] @ [CHR 0x0A] @
           concat (map (\<lambda>item. item @ [CHR 0x0A]) (snd g)) @
           concat (map (print_group now') rest))"
    using assms(1) unfolding gs by (simp add: print_group_def header_def)
  then show ?thesis using len append_eq_append_conv by blast
qed

text \<open>
  Claim C3, as amended. The groups of host blocks are a function of the files read, and each
  group is printed under a header that shows the clock reading of the run. Two runs on the same
  files print the same text exactly when their clock readings are the same, or when nothing is
  printed: the run ends with an exception, or no interface qualifies.
\<close>

theorem output_identical_iff_same_clock:
  "main now e = main now' e \<longleftrightarrow>
     now = now' \<or> (\<exists>err. main_confs e = Inl err) \<or> main_confs e = Inr []"
proof (cases "main_confs e")
  case (Inl err)
  then show ?thesis by (simp add: main_def)
next
  case (Inr groups)
  show ?thesis
  proof (cases "groups = []")
    case True
    then show ?thesis using Inr by (simp add: main_def print_confs_def)
  next
    case False
    then have ne: "sort_key fst groups \<noteq> []" by (metis length_sort list.size(3) length_0_conv)
    have "print_confs now groups = print_confs now' groups \<longleftrightarrow> now = now'"
      using print_groups_clock[OF _ ne] by (auto simp add: print_confs_def)
    then show ?thesis using Inr False by (simp add: main_def)
  qed
qed

text \<open>
  Witness for C3: the example run prints different texts at different clock readings, while the
  run that ends with KeyError prints nothing at either.
\<close>

theorem output_identical_iff_same_clock_witness:
  "main_confs example_env = Inr [(''vmnet8'', [example_block_alpha, example_block_beta])] \<and>
   main ''2024-05-01T12:00:00'' example_env \<noteq> main ''2024-05-02T08:30:15'' example_env \<and>
   main ''2024-05-01T12:00:00'' example_env_no_dhcp =
     main ''2024-05-02T08:30:15'' example_env_no_dhcp"
proof -
  have a: "main ''2024-05-01T12:00:00'' example_env \<noteq> main ''2024-05-02T08:30:15'' example_env"
    using output_identical_iff_same_clock[of "''2024-05-01T12:00:00''" example_env
        "''2024-05-02T08:30:15''"]
    by (simp add: example_main_confs)
  have "main ''2024-05-01T12:00:00'' example_env_no_dhcp = Inl (KeyError ''dhcp'')"
       "main ''2024-05-02T08:30:15'' example_env_no_dhcp = Inl (KeyError ''dhcp'')"
    by (simp_all add: main_def example_no_dhcp_confs)
  then show ?thesis using a example_main_confs by simp
qed

text \<open>
  Two runs on the files of the example, one second apart: the headers differ in the clock
  reading.
\<close>

theorem output_differs_counterexample:
  "main ''2024-05-01T12:00:00'' example_env = Inr
     (''## 2024-05-01T12:00:00 vmnet8 fixed-address configs ##'' @ [CHR 0x0A, CHR 0x0A] @
      example_block_alpha @ [CHR 0x0A] @ example_block_beta @ [CHR 0x0A]) \<and>
   main ''2024-05-01T12:00:01'' example_env = Inr
     (''## 2024-05-01T12:00:01 vmnet8 fixed-address configs ##'' @ [CHR 0x0A, CHR 0x0A] @
      example_block_alpha @ [CHR 0x0A] @ example_block_beta @ [CHR 0x0A]) \<and>
   main ''2024-05-01T12:00:00'' example_env \<noteq> main ''2024-05-01T12:00:01'' example_env"
  by (simp add: main_def example_main_confs print_confs_def print_group_def header_def)

end
